theory Spec2Isabelle
  imports Complex_Main "HOL-Library.Word"
begin

unbundle bit_operations_syntax

section \<open>Numbers\<close>

text \<open>
  The numeric code of the repository (\<^verbatim>\<open>cubic.ts\<close>, \<^verbatim>\<open>interpolate.ts\<close>, the
  helpers \<^verbatim>\<open>solve\<close> and \<^verbatim>\<open>isOdd\<close>) computes with JavaScript numbers, which are
  IEEE-754 doubles. A number is a finite value, \<^verbatim>\<open>Infinity\<close>, \<^verbatim>\<open>-Infinity\<close> or
  \<^verbatim>\<open>NaN\<close> (the type \<open>number\<close> below). Every \<^verbatim>\<open>+\<close>, \<^verbatim>\<open>-\<close>, \<^verbatim>\<open>*\<close> and \<^verbatim>\<open>/\<close>
  of the source is the exact operation followed by rounding to the nearest double, a tie
  going to the even significand (\<open>fl\<close>); the significand has 53 bits, numbers below
  \<open>2^(-1022)\<close> are rounded to the subnormal doubles, and a rounded result of magnitude
  \<open>2^1024\<close> or more is an infinity (\<open>rnd\<close>). The operations on infinities and on
  \<^verbatim>\<open>NaN\<close> are those of IEEE 754.

  A finite number is modelled by the real it stands for; the numbers the code receives are
  doubles, that is reals \<open>x\<close> with \<open>fl x = x\<close> below \<open>2^1024\<close> in magnitude. Zero has
  no sign: \<^verbatim>\<open>-0\<close> and \<^verbatim>\<open>0\<close>, which \<^verbatim>\<open>===\<close> and \<^verbatim>\<open><\<close> do not tell apart, are one
  value, and a zero divisor counts as \<^verbatim>\<open>+0\<close> (no division of the modelled code has a
  zero divisor when the controls are doubles). Comparisons, \<^verbatim>\<open>Math.abs\<close>,
  \<^verbatim>\<open>Math.floor\<close> and \<^verbatim>\<open>Math.round\<close> are exact. Array indices and byte values are
  \<^typ>\<open>nat\<close>, \<^typ>\<open>int\<close> or words.
\<close>

text \<open>The exponent \<open>e\<close> with \<open>2^e \<le> x < 2^(e+1)\<close> of a positive number.\<close>

function binade :: "real \<Rightarrow> int" where
  "binade x =
     (if x \<le> 0 then 0
      else if 2 \<le> x then binade (x / 2) + 1
      else if x < 1 then binade (2 * x) - 1
      else 0)"
  by pat_completeness auto

termination
proof (relation "measure (\<lambda>x. nat \<bar>\<lfloor>log 2 x\<rfloor>\<bar>)")
  show "wf (measure (\<lambda>x. nat \<bar>\<lfloor>log 2 x\<rfloor>\<bar>))" by simp
next
  fix x :: real
  assume "\<not> x \<le> 0" "2 \<le> x"
  then have "log 2 (x / 2) = log 2 x - 1" "1 \<le> log 2 x"
    by (simp_all add: log_divide)
  then have "\<lfloor>log 2 (x / 2)\<rfloor> = \<lfloor>log 2 x\<rfloor> - 1" "1 \<le> \<lfloor>log 2 x\<rfloor>"
    by (simp_all add: le_floor_iff)
  then show "(x / 2, x) \<in> measure (\<lambda>x. nat \<bar>\<lfloor>log 2 x\<rfloor>\<bar>)"
    by simp
next
  fix x :: real
  assume "\<not> x \<le> 0" "\<not> 2 \<le> x" "x < 1"
  then have "log 2 (2 * x) = log 2 x + 1" "log 2 x < 0"
    by (simp_all add: log_mult)
  then have "\<lfloor>log 2 (2 * x)\<rfloor> = \<lfloor>log 2 x\<rfloor> + 1" "\<lfloor>log 2 x\<rfloor> < 0"
    by (simp_all add: floor_less_iff)
  then have "nat \<bar>\<lfloor>log 2 (2 * x)\<rfloor>\<bar> < nat \<bar>\<lfloor>log 2 x\<rfloor>\<bar>"
    by linarith
  then show "(2 * x, x) \<in> measure (\<lambda>x. nat \<bar>\<lfloor>log 2 x\<rfloor>\<bar>)"
    by (simp only: in_measure)
qed

declare binade.simps [simp del]

text \<open>The nearest integer, a tie going to the even one.\<close>

definition rne :: "real \<Rightarrow> int" where
  "rne y =
     (if y - of_int \<lfloor>y\<rfloor> < 1 / 2 then \<lfloor>y\<rfloor>
      else if 1 / 2 < y - of_int \<lfloor>y\<rfloor> then \<lfloor>y\<rfloor> + 1
      else if even \<lfloor>y\<rfloor> then \<lfloor>y\<rfloor> else \<lfloor>y\<rfloor> + 1)"

text \<open>
  The exponent of the grid of doubles around \<open>x\<close>: in the binade \<open>e\<close> the doubles are
  the multiples of \<open>2^(e - 52)\<close>, and below \<open>2^(-1022)\<close> (the subnormal doubles) the
  multiples of \<open>2^(-1074)\<close>.
\<close>

definition expo :: "real \<Rightarrow> int" where
  "expo x = max (binade \<bar>x\<bar>) (- 1022) - 52"

text \<open>
  The nearest number of that grid, a tie going to the even multiple. This is the double
  nearest to \<open>x\<close> as long as it is below \<open>2^1024\<close> in magnitude.
\<close>

definition fl :: "real \<Rightarrow> real" where
  "fl x = of_int (rne (x / 2 powi expo x)) * 2 powi expo x"

text \<open>The values of a JavaScript number.\<close>

datatype number = Finite real | PosInfinity | NegInfinity | NaN

text \<open>The double that an exact result is rounded to.\<close>

definition rnd :: "real \<Rightarrow> number" where
  "rnd x =
     (if 2 ^ 1024 \<le> fl x then PosInfinity
      else if fl x \<le> - (2 ^ 1024) then NegInfinity
      else Finite (fl x))"

text \<open>The four arithmetic operators.\<close>

fun js_add :: "number \<Rightarrow> number \<Rightarrow> number" where
  "js_add (Finite x) (Finite y) = rnd (x + y)"
| "js_add NaN _ = NaN"
| "js_add _ NaN = NaN"
| "js_add PosInfinity NegInfinity = NaN"
| "js_add NegInfinity PosInfinity = NaN"
| "js_add PosInfinity _ = PosInfinity"
| "js_add _ PosInfinity = PosInfinity"
| "js_add NegInfinity _ = NegInfinity"
| "js_add _ NegInfinity = NegInfinity"

fun js_sub :: "number \<Rightarrow> number \<Rightarrow> number" where
  "js_sub (Finite x) (Finite y) = rnd (x - y)"
| "js_sub NaN _ = NaN"
| "js_sub _ NaN = NaN"
| "js_sub PosInfinity PosInfinity = NaN"
| "js_sub NegInfinity NegInfinity = NaN"
| "js_sub PosInfinity _ = PosInfinity"
| "js_sub _ PosInfinity = NegInfinity"
| "js_sub NegInfinity _ = NegInfinity"
| "js_sub _ NegInfinity = PosInfinity"

fun js_mul :: "number \<Rightarrow> number \<Rightarrow> number" where
  "js_mul (Finite x) (Finite y) = rnd (x * y)"
| "js_mul NaN _ = NaN"
| "js_mul _ NaN = NaN"
| "js_mul (Finite x) PosInfinity =
     (if x = 0 then NaN else if 0 < x then PosInfinity else NegInfinity)"
| "js_mul (Finite x) NegInfinity =
     (if x = 0 then NaN else if 0 < x then NegInfinity else PosInfinity)"
| "js_mul PosInfinity (Finite y) =
     (if y = 0 then NaN else if 0 < y then PosInfinity else NegInfinity)"
| "js_mul NegInfinity (Finite y) =
     (if y = 0 then NaN else if 0 < y then NegInfinity else PosInfinity)"
| "js_mul PosInfinity PosInfinity = PosInfinity"
| "js_mul PosInfinity NegInfinity = NegInfinity"
| "js_mul NegInfinity PosInfinity = NegInfinity"
| "js_mul NegInfinity NegInfinity = PosInfinity"

fun js_div :: "number \<Rightarrow> number \<Rightarrow> number" where
  "js_div (Finite x) (Finite y) =
     (if y = 0 then (if x = 0 then NaN else if 0 < x then PosInfinity else NegInfinity)
      else rnd (x / y))"
| "js_div NaN _ = NaN"
| "js_div _ NaN = NaN"
| "js_div (Finite x) _ = Finite 0"
| "js_div PosInfinity (Finite y) = (if 0 \<le> y then PosInfinity else NegInfinity)"
| "js_div NegInfinity (Finite y) = (if 0 \<le> y then NegInfinity else PosInfinity)"
| "js_div _ _ = NaN"

text \<open>
  The comparisons \<^verbatim>\<open><\<close>, \<^verbatim>\<open><=\<close>, \<^verbatim>\<open>>\<close>, \<^verbatim>\<open>>=\<close> and \<^verbatim>\<open>===\<close>: every comparison with
  \<^verbatim>\<open>NaN\<close> is false.
\<close>

fun js_lt :: "number \<Rightarrow> number \<Rightarrow> bool" where
  "js_lt (Finite x) (Finite y) = (x < y)"
| "js_lt NaN _ = False"
| "js_lt _ NaN = False"
| "js_lt _ NegInfinity = False"
| "js_lt PosInfinity _ = False"
| "js_lt _ _ = True"

fun js_le :: "number \<Rightarrow> number \<Rightarrow> bool" where
  "js_le (Finite x) (Finite y) = (x \<le> y)"
| "js_le NaN _ = False"
| "js_le _ NaN = False"
| "js_le NegInfinity _ = True"
| "js_le _ PosInfinity = True"
| "js_le _ _ = False"

definition js_gt :: "number \<Rightarrow> number \<Rightarrow> bool" where
  "js_gt x y = js_lt y x"

definition js_ge :: "number \<Rightarrow> number \<Rightarrow> bool" where
  "js_ge x y = js_le y x"

definition js_eq :: "number \<Rightarrow> number \<Rightarrow> bool" where
  "js_eq x y = (x \<noteq> NaN \<and> x = y)"

text \<open>
  \<^verbatim>\<open>Math.abs\<close>, \<^verbatim>\<open>Math.floor\<close> and \<^verbatim>\<open>Math.round\<close> (the nearest integer, a tie going
  up).
\<close>

fun Math_abs :: "number \<Rightarrow> number" where
  "Math_abs (Finite x) = Finite \<bar>x\<bar>"
| "Math_abs NaN = NaN"
| "Math_abs _ = PosInfinity"

fun Math_floor :: "number \<Rightarrow> number" where
  "Math_floor (Finite x) = Finite (of_int \<lfloor>x\<rfloor>)"
| "Math_floor x = x"

fun Math_round :: "number \<Rightarrow> number" where
  "Math_round (Finite x) = Finite (of_int \<lfloor>x + 1 / 2\<rfloor>)"
| "Math_round x = x"

text \<open>Whether a number is finite: neither an infinity nor \<^verbatim>\<open>NaN\<close>.\<close>

fun is_finite :: "number \<Rightarrow> bool" where
  "is_finite (Finite x) = True"
| "is_finite _ = False"

section \<open>Errors\<close>

text \<open>
  Every \<^verbatim>\<open>throw new Error(...)\<close> of the modelled code is a constructor, named after its
  message; \<open>TypeError\<close> is the runtime's error on reading a property of \<^verbatim>\<open>undefined\<close>.
\<close>

datatype error =
    Mismatched_interpolation_arguments "number list" "number list"
  | Invalid_frame_data
  | TypeError

type_synonym byte = "8 word"

section \<open>cubic.ts\<close>

text \<open>
  \<^verbatim>\<open>Cubic.calculate(a, b, m)\<close>:
  \<^verbatim>\<open>3.0 * a * (1 - m) * (1 - m) * m + 3.0 * b * (1 - m) * m * m + m * m * m\<close>, every
  operator applied from left to right.
\<close>

definition calculate :: "number \<Rightarrow> number \<Rightarrow> number \<Rightarrow> number" where
  "calculate a b m =
     js_add
       (js_add
          (js_mul (js_mul (js_mul (js_mul (Finite 3) a) (js_sub (Finite 1) m))
             (js_sub (Finite 1) m)) m)
          (js_mul (js_mul (js_mul (js_mul (Finite 3) b) (js_sub (Finite 1) m)) m) m))
       (js_mul (js_mul m m) m)"

text \<open>
  The loop of \<^verbatim>\<open>Cubic.getValue\<close>, with the loop variables \<open>start\<close>, \<open>mid\<close> and
  \<open>end\<close> as arguments; the new \<open>mid\<close> is \<^verbatim>\<open>(start + end) / 2\<close> and the literal
  \<^verbatim>\<open>0.00001\<close> is the double nearest to it. A run that never leaves the loop is the
  value \<open>None\<close>.
\<close>

partial_function (option) getValue_loop ::
  "number list \<Rightarrow> number \<Rightarrow> number \<Rightarrow> number \<Rightarrow> number \<Rightarrow> number option" where
  "getValue_loop curves time start mid end =
     (if js_lt start end then
        (if js_lt
              (Math_abs (js_sub time
                 (calculate (curves ! 0) (curves ! 2) (js_div (js_add start end) (Finite 2)))))
              (Finite (fl 0.00001))
         then Some (calculate (curves ! 1) (curves ! 3) (js_div (js_add start end) (Finite 2)))
         else if js_lt (calculate (curves ! 0) (curves ! 2) (js_div (js_add start end) (Finite 2)))
                   time
         then getValue_loop curves time
                (js_div (js_add start end) (Finite 2)) (js_div (js_add start end) (Finite 2)) end
         else getValue_loop curves time
                start (js_div (js_add start end) (Finite 2)) (js_div (js_add start end) (Finite 2)))
      else Some (calculate (curves ! 1) (curves ! 3) mid))"

text \<open>
  The gradients that \<^verbatim>\<open>getValue\<close> computes for a time outside the unit interval;
  \<^verbatim>\<open>startGradient\<close> and \<^verbatim>\<open>endGradient\<close> start at 0.
\<close>

definition startGradient :: "number list \<Rightarrow> number" where
  "startGradient curves =
     (if js_gt (curves ! 0) (Finite 0) then js_div (curves ! 1) (curves ! 0)
      else if js_eq (curves ! 1) (Finite 0) \<and> js_gt (curves ! 2) (Finite 0)
      then js_div (curves ! 3) (curves ! 2)
      else Finite 0)"

definition endGradient :: "number list \<Rightarrow> number" where
  "endGradient curves =
     (if js_lt (curves ! 2) (Finite 1)
      then js_div (js_sub (curves ! 3) (Finite 1)) (js_sub (curves ! 2) (Finite 1))
      else if js_eq (curves ! 2) (Finite 1) \<and> js_lt (curves ! 0) (Finite 1)
      then js_div (js_sub (curves ! 1) (Finite 1)) (js_sub (curves ! 0) (Finite 1))
      else Finite 0)"

text \<open>
  \<^verbatim>\<open>Cubic.getValue(time)\<close> of the object built by \<^verbatim>\<open>new Cubic(curves)\<close>. The source
  reads \<^verbatim>\<open>this.curves[0..3]\<close>; the theorems below are about arrays of four numbers.
\<close>

definition getValue :: "number list \<Rightarrow> number \<Rightarrow> number option" where
  "getValue curves time =
     (if js_le time (Finite 0) then Some (js_mul (startGradient curves) time)
      else if js_ge time (Finite 1)
      then Some (js_add (Finite 1) (js_mul (endGradient curves) (js_sub time (Finite 1))))
      else getValue_loop curves time (Finite 0) (Finite 0) (Finite 1))"

section \<open>utils.ts: isOdd\<close>

definition isOdd :: "nat \<Rightarrow> number" where
  "isOdd num = (if num mod 2 \<noteq> 0 then Finite (- 1) else Finite 0)"

section \<open>interpolate.ts\<close>




section \<open>transaction.ts: solve and the curve controls of animate\<close>

definition solve :: "number \<Rightarrow> number \<Rightarrow> number \<Rightarrow> bool \<Rightarrow> number" where
  "solve val minVal maxVal rounding =
     (let result = js_add (js_div (js_mul val (js_sub maxVal minVal)) (Finite 255)) minVal
      in if rounding then Math_floor result
         else js_div (Math_round (js_mul result (Finite 100))) (Finite 100))"

text \<open>
  The array \<^verbatim>\<open>curves\<close> that \<^verbatim>\<open>animate\<close> computes from its frame row and hands to
  \<^verbatim>\<open>new Cubic\<close>: \<^verbatim>\<open>frames.slice(7).map((item, counter) => solve(item, isOdd(counter), 1.0, false))\<close>.
\<close>

definition animate_curves :: "number list \<Rightarrow> number list" where
  "animate_curves frames =
     (let remainingFrames = drop 7 frames
      in map (\<lambda>(counter, item). solve item (isOdd counter) (Finite 1) False)
           (enumerate 0 remainingFrames))"

section \<open>transaction.ts: the frame table\<close>

text \<open>
  The document is the parsed markup that the caller supplies. An element is modelled by
  its attributes and its child elements; \<^verbatim>\<open>querySelectorAll\<close> visits the elements in
  document order, and the selector \<^verbatim>\<open>[id^='loading-x-anim']\<close> keeps those whose
  \<^verbatim>\<open>id\<close> starts with that prefix (14 characters).
\<close>

datatype element = Element (attributes: "(string \<times> string) list") (children: "element list")

definition getAttribute :: "element \<Rightarrow> string \<Rightarrow> string option" where
  "getAttribute e name = map_of (attributes e) name"

fun descendants :: "element \<Rightarrow> element list" where
  "descendants (Element as cs) = Element as cs # concat (map descendants cs)"

definition getFrames :: "element \<Rightarrow> element list" where
  "getFrames response =
     filter (\<lambda>e. case getAttribute e ''id'' of
                    None \<Rightarrow> False
                  | Some v \<Rightarrow> take 14 v = ''loading-x-anim'')
       (descendants response)"

text \<open>\<^verbatim>\<open>String.prototype.split\<close> on a one-character separator.\<close>

fun split_on :: "char \<Rightarrow> string \<Rightarrow> string list" where
  "split_on sep [] = [[]]"
| "split_on sep (c # cs) =
     (if c = sep then [] # split_on sep cs
      else (case split_on sep cs of
              [] \<Rightarrow> [[c]]
            | item # items \<Rightarrow> (c # item) # items))"

definition is_digit :: "char \<Rightarrow> bool" where
  "is_digit c = (48 \<le> (of_char c :: nat) \<and> (of_char c :: nat) \<le> 57)"

text \<open>
  Steps a) and b) of \<^verbatim>\<open>get2dArray\<close>: every run of non-digits becomes one blank, the
  ends are trimmed and the rest is split at the blanks. What is left are the maximal runs
  of digits of the segment, in order; \<open>run\<close> is the run being read.
\<close>

fun digit_runs :: "string \<Rightarrow> string \<Rightarrow> string list" where
  "digit_runs run [] = (if run = [] then [] else [run])"
| "digit_runs run (c # cs) =
     (if is_digit c then digit_runs (run @ [c]) cs
      else if run = [] then digit_runs [] cs
      else run # digit_runs [] cs)"

text \<open>
  \<^verbatim>\<open>parseInt(str, 10)\<close> on a string of digits: the integer that the digits denote. For
  a run that denotes at most \<open>2^53\<close> this is the number the runtime returns; a longer run,
  which the runtime rounds to a double, is outside the model.
\<close>

definition parseInt10 :: "string \<Rightarrow> nat" where
  "parseInt10 str = foldl (\<lambda>n c. 10 * n + (of_char c - 48)) 0 str"

text \<open>
  \<^verbatim>\<open>get2dArray(keyBytes, response, frames?)\<close>. Reading \<^verbatim>\<open>.children\<close> of a frame or of a
  child that does not exist makes the runtime throw; that is \<open>Inl TypeError\<close>. With
  fewer than six key bytes \<^verbatim>\<open>keyBytes[5] % 4\<close> is not an index and no frame is selected.
\<close>

definition get2dArray ::
  "byte list \<Rightarrow> element \<Rightarrow> element list option \<Rightarrow> error + nat list list" where
  "get2dArray keyBytes response frames =
     (let frames = (case frames of None \<Rightarrow> getFrames response | Some fs \<Rightarrow> fs)
      in if frames = [] then Inr [[]]
         else if 5 < length keyBytes \<and> unat (keyBytes ! 5) mod 4 < length frames
         then (case children (frames ! (unat (keyBytes ! 5) mod 4)) of
                 [] \<Rightarrow> Inl TypeError
               | firstChild # _ \<Rightarrow>
                   (case children firstChild of
                      _ # targetChild # _ \<Rightarrow>
                        (case getAttribute targetChild ''d'' of
                           None \<Rightarrow> Inr []
                         | Some dAttr \<Rightarrow>
                             Inr (map (\<lambda>item. map parseInt10 (digit_runs [] item))
                                    (split_on (CHR ''C'') (drop 9 dAttr))))
                    | _ \<Rightarrow> Inl TypeError))
         else Inl TypeError)"

text \<open>
  \<^verbatim>\<open>getAnimationKey\<close> up to the choice of \<^verbatim>\<open>frameRow\<close>: the table is fetched, and
  \<^verbatim>\<open>if (!arr || !arr[rowIndexValue]) throw new Error("Invalid frame data")\<close> rejects a
  row that does not exist. A row that exists is an array, hence truthy, also when empty.
\<close>

definition getAnimationKey_frameRow ::
  "byte list \<Rightarrow> element \<Rightarrow> nat \<Rightarrow> error + nat list" where
  "getAnimationKey_frameRow keyBytes response rowIndex =
     (case get2dArray keyBytes response None of
        Inl e \<Rightarrow> Inl e
      | Inr arr \<Rightarrow>
          if rowIndex < length keyBytes \<and> unat (keyBytes ! rowIndex) mod 16 < length arr
          then Inr (arr ! (unat (keyBytes ! rowIndex) mod 16))
          else Inl Invalid_frame_data)"

section \<open>Base64 (the runtime's Buffer)\<close>

text \<open>
  \<^verbatim>\<open>encodeBase64\<close> is \<^verbatim>\<open>Buffer.from(input).toString('base64')\<close>: the alphabet of
  RFC 4648 with \<^verbatim>\<open>=\<close> padding. \<open>base64_char\<close> gives the character of a six-bit
  value (\<^verbatim>\<open>A-Z\<close>, \<^verbatim>\<open>a-z\<close>, \<^verbatim>\<open>0-9\<close>, \<^verbatim>\<open>+\<close>, \<^verbatim>\<open>/\<close>).
\<close>

definition base64_char :: "nat \<Rightarrow> char" where
  "base64_char n =
     (if n < 26 then char_of (n + 65)
      else if n < 52 then char_of (n + 71)
      else if n < 62 then char_of (n - 4)
      else if n = 62 then char_of (43 :: nat)
      else char_of (47 :: nat))"

fun encodeBase64 :: "byte list \<Rightarrow> string" where
  "encodeBase64 (a # b # c # rest) =
     [base64_char (unat a div 4),
      base64_char ((unat a mod 4) * 16 + unat b div 16),
      base64_char ((unat b mod 16) * 4 + unat c div 64),
      base64_char (unat c mod 64)] @ encodeBase64 rest"
| "encodeBase64 [a, b] =
     [base64_char (unat a div 4),
      base64_char ((unat a mod 4) * 16 + unat b div 16),
      base64_char ((unat b mod 16) * 4),
      CHR ''='']"
| "encodeBase64 [a] =
     [base64_char (unat a div 4),
      base64_char ((unat a mod 4) * 16),
      CHR ''='', CHR ''='']"
| "encodeBase64 [] = []"

text \<open>
  \<^verbatim>\<open>decodeBase64\<close> is \<^verbatim>\<open>Buffer.from(input, 'base64')\<close>, the lenient decoder of the
  runtime: it stops at the first \<^verbatim>\<open>=\<close>, skips every character outside the alphabet,
  also reads \<^verbatim>\<open>-\<close> and \<^verbatim>\<open>_\<close> as 62 and 63, and needs no padding.
\<close>

definition unbase64 :: "char \<Rightarrow> nat option" where
  "unbase64 c =
     (let n = of_char c :: nat in
      if 65 \<le> n \<and> n \<le> 90 then Some (n - 65)
      else if 97 \<le> n \<and> n \<le> 122 then Some (n - 71)
      else if 48 \<le> n \<and> n \<le> 57 then Some (n + 4)
      else if n = 43 \<or> n = 45 then Some 62
      else if n = 47 \<or> n = 95 then Some 63
      else None)"

fun decode_sextets :: "nat list \<Rightarrow> byte list" where
  "decode_sextets (s1 # s2 # s3 # s4 # rest) =
     [of_nat (s1 * 4 + s2 div 16), of_nat ((s2 mod 16) * 16 + s3 div 4),
      of_nat ((s3 mod 4) * 64 + s4)] @ decode_sextets rest"
| "decode_sextets [s1, s2, s3] =
     [of_nat (s1 * 4 + s2 div 16), of_nat ((s2 mod 16) * 16 + s3 div 4)]"
| "decode_sextets [s1, s2] = [of_nat (s1 * 4 + s2 div 16)]"
| "decode_sextets _ = []"

definition sextets :: "string \<Rightarrow> nat list" where
  "sextets input = List.map_filter unbase64 (takeWhile (\<lambda>c. c \<noteq> CHR ''='') input)"

definition decodeBase64 :: "string \<Rightarrow> byte list" where
  "decodeBase64 input = decode_sextets (sextets input)"

text \<open>\<^verbatim>\<open>.replace(/=/g, "")\<close>, and the padding put back to a multiple of four.\<close>

definition strip_padding :: "string \<Rightarrow> string" where
  "strip_padding s = filter (\<lambda>c. c \<noteq> CHR ''='') s"

definition unstrip_padding :: "string \<Rightarrow> string" where
  "unstrip_padding s = s @ replicate ((4 - length s mod 4) mod 4) (CHR ''='')"

section \<open>SHA-256 (the runtime's crypto.subtle.digest)\<close>

text \<open>
  The hash of FIPS 180-4 on byte sequences: the message is padded to whole blocks of 64
  bytes, every block extends to 64 words and runs through 64 rounds.
\<close>

definition sha256_K :: "32 word list" where
  "sha256_K =
    [0x428A2F98, 0x71374491, 0xB5C0FBCF, 0xE9B5DBA5, 0x3956C25B, 0x59F111F1, 0x923F82A4,
     0xAB1C5ED5, 0xD807AA98, 0x12835B01, 0x243185BE, 0x550C7DC3, 0x72BE5D74, 0x80DEB1FE,
     0x9BDC06A7, 0xC19BF174, 0xE49B69C1, 0xEFBE4786, 0x0FC19DC6, 0x240CA1CC, 0x2DE92C6F,
     0x4A7484AA, 0x5CB0A9DC, 0x76F988DA, 0x983E5152, 0xA831C66D, 0xB00327C8, 0xBF597FC7,
     0xC6E00BF3, 0xD5A79147, 0x06CA6351, 0x14292967, 0x27B70A85, 0x2E1B2138, 0x4D2C6DFC,
     0x53380D13, 0x650A7354, 0x766A0ABB, 0x81C2C92E, 0x92722C85, 0xA2BFE8A1, 0xA81A664B,
     0xC24B8B70, 0xC76C51A3, 0xD192E819, 0xD6990624, 0xF40E3585, 0x106AA070, 0x19A4C116,
     0x1E376C08, 0x2748774C, 0x34B0BCB5, 0x391C0CB3, 0x4ED8AA4A, 0x5B9CCA4F, 0x682E6FF3,
     0x748F82EE, 0x78A5636F, 0x84C87814, 0x8CC70208, 0x90BEFFFA, 0xA4506CEB, 0xBEF9A3F7,
     0xC67178F2]"

type_synonym sha256_state =
  "32 word \<times> 32 word \<times> 32 word \<times> 32 word \<times> 32 word \<times> 32 word \<times> 32 word \<times> 32 word"

definition sha256_init :: sha256_state where
  "sha256_init =
     (0x6A09E667, 0xBB67AE85, 0x3C6EF372, 0xA54FF53A,
      0x510E527F, 0x9B05688C, 0x1F83D9AB, 0x5BE0CD19)"

definition sha256_round :: "sha256_state \<Rightarrow> 32 word \<times> 32 word \<Rightarrow> sha256_state" where
  "sha256_round s kw =
     (case s of (a, b, c, d, e, f, g, h) \<Rightarrow>
        let t1 = h + (word_rotr 6 e XOR word_rotr 11 e XOR word_rotr 25 e)
                   + ((e AND f) XOR (NOT e AND g)) + fst kw + snd kw;
            t2 = (word_rotr 2 a XOR word_rotr 13 a XOR word_rotr 22 a)
                   + ((a AND b) XOR (a AND c) XOR (b AND c))
        in (t1 + t2, a, b, c, d + t1, e, f, g))"

fun sha256_schedule :: "nat \<Rightarrow> 32 word list \<Rightarrow> 32 word list" where
  "sha256_schedule 0 w = w"
| "sha256_schedule (Suc n) w =
     sha256_schedule n
       (w @ [(word_rotr 17 (w ! (length w - 2)) XOR word_rotr 19 (w ! (length w - 2))
                XOR drop_bit 10 (w ! (length w - 2)))
             + w ! (length w - 7)
             + (word_rotr 7 (w ! (length w - 15)) XOR word_rotr 18 (w ! (length w - 15))
                  XOR drop_bit 3 (w ! (length w - 15)))
             + w ! (length w - 16)])"

definition sha256_add :: "sha256_state \<Rightarrow> sha256_state \<Rightarrow> sha256_state" where
  "sha256_add s t =
     (case s of (a, b, c, d, e, f, g, h) \<Rightarrow>
      case t of (a', b', c', d', e', f', g', h') \<Rightarrow>
        (a + a', b + b', c + c', d + d', e + e', f + f', g + g', h + h'))"

definition sha256_block :: "sha256_state \<Rightarrow> 32 word list \<Rightarrow> sha256_state" where
  "sha256_block s w = sha256_add s (foldl sha256_round s (zip sha256_K (sha256_schedule 48 w)))"

definition be32 :: "byte \<Rightarrow> byte \<Rightarrow> byte \<Rightarrow> byte \<Rightarrow> 32 word" where
  "be32 a b c d =
     push_bit 24 (ucast a) OR push_bit 16 (ucast b) OR push_bit 8 (ucast c) OR ucast d"

fun be_words :: "byte list \<Rightarrow> 32 word list" where
  "be_words (a # b # c # d # rest) = be32 a b c d # be_words rest"
| "be_words _ = []"

definition be_bytes :: "32 word \<Rightarrow> byte list" where
  "be_bytes w = [ucast (drop_bit 24 w), ucast (drop_bit 16 w), ucast (drop_bit 8 w), ucast w]"

definition sha256_pad :: "byte list \<Rightarrow> byte list" where
  "sha256_pad msg =
     msg @ [0x80] @ replicate ((119 - length msg mod 64) mod 64) 0
       @ map (\<lambda>i. of_nat ((8 * length msg) div 2 ^ (8 * (7 - i)))) [0..<8]"

fun sha256_blocks :: "nat \<Rightarrow> sha256_state \<Rightarrow> byte list \<Rightarrow> sha256_state" where
  "sha256_blocks 0 s bs = s"
| "sha256_blocks (Suc n) s bs = sha256_blocks n (sha256_block s (be_words (take 64 bs))) (drop 64 bs)"

definition sha256 :: "byte list \<Rightarrow> byte list" where
  "sha256 msg =
     (case sha256_blocks (length (sha256_pad msg) div 64) sha256_init (sha256_pad msg) of
        (a, b, c, d, e, f, g, h) \<Rightarrow>
          be_bytes a @ be_bytes b @ be_bytes c @ be_bytes d
            @ be_bytes e @ be_bytes f @ be_bytes g @ be_bytes h)"

section \<open>transaction.ts: generateTransactionId\<close>

definition ADDITIONAL_RANDOM_NUMBER :: byte where
  "ADDITIONAL_RANDOM_NUMBER = 3"

definition DEFAULT_KEYWORD :: string where
  "DEFAULT_KEYWORD = ''obfiowerehiring''"

text \<open>\<^verbatim>\<open>getKeyBytes(key)\<close>: the bytes of the verification key.\<close>

definition getKeyBytes :: "string \<Rightarrow> byte list" where
  "getKeyBytes key = decodeBase64 key"

text \<open>
  The text of the timestamp in the template string, for an integer timestamp: decimal
  digits, with a minus sign when negative. The runtime prints in this form the integers of
  magnitude below \<open>10^21\<close>, which covers every timestamp of 32 bits; larger ones, printed
  with an exponent, are outside the model.
\<close>

fun decimal :: "nat \<Rightarrow> string" where
  "decimal n = (if n < 10 then [char_of (48 + n)] else decimal (n div 10) @ [char_of (48 + n mod 10)])"

declare decimal.simps [simp del]

definition number_toString :: "int \<Rightarrow> string" where
  "number_toString i = (if i < 0 then CHR ''-'' # decimal (nat (- i)) else decimal (nat i))"

text \<open>
  \<^verbatim>\<open>new TextEncoder().encode(data)\<close>: UTF-8. A \<^typ>\<open>char\<close> stands for the code point
  of its value, so a character from 128 on takes two bytes.
\<close>

definition TextEncoder_encode :: "string \<Rightarrow> byte list" where
  "TextEncoder_encode s =
     concat (map (\<lambda>c. let n = of_char c :: nat
                        in if n < 128 then [of_nat n]
                           else [of_nat (192 + n div 64), of_nat (128 + n mod 64)]) s)"

text \<open>
  \<^verbatim>\<open>timeNow = timeNow || Math.floor((Date.now() - 1682924400 * 1000) / 1000)\<close>. The
  argument is \<open>None\<close> when the caller leaves it out; \<open>now\<close> is the value of
  \<^verbatim>\<open>Date.now()\<close>. The number 0 is falsy, so it takes the default as well.
\<close>

definition defaultTimeNow :: "int \<Rightarrow> int" where
  "defaultTimeNow now = (now - 1682924400 * 1000) div 1000"

definition effectiveTimeNow :: "int \<Rightarrow> int option \<Rightarrow> int" where
  "effectiveTimeNow now timeNow =
     (case timeNow of
        None \<Rightarrow> defaultTimeNow now
      | Some t \<Rightarrow> if t \<noteq> 0 then t else defaultTimeNow now)"

text \<open>
  The bitwise operators work on the timestamp reduced to 32 bits; \<^verbatim>\<open>>>\<close> is the
  signed shift.
\<close>

definition timeNowBytes :: "int \<Rightarrow> byte list" where
  "timeNowBytes timeNow =
     (let t = (word_of_int timeNow :: 32 word)
      in [ucast (t AND 0xff),
          ucast (signed_drop_bit 8 t AND 0xff),
          ucast (signed_drop_bit 16 t AND 0xff),
          ucast (signed_drop_bit 24 t AND 0xff)])"

text \<open>The template string \<^verbatim>\<open>data\<close> that is hashed.\<close>

definition signature_data :: "string \<Rightarrow> string \<Rightarrow> int \<Rightarrow> string \<Rightarrow> string" where
  "signature_data method path timeNow animationKey =
     method @ ''!'' @ path @ ''!'' @ number_toString timeNow @ DEFAULT_KEYWORD @ animationKey"

definition bytesArr :: "string \<Rightarrow> string \<Rightarrow> string \<Rightarrow> string \<Rightarrow> int \<Rightarrow> byte list" where
  "bytesArr method path key animationKey timeNow =
     getKeyBytes key @ timeNowBytes timeNow
       @ take 16 (sha256 (TextEncoder_encode (signature_data method path timeNow animationKey)))
       @ [ADDITIONAL_RANDOM_NUMBER]"

text \<open>
  The array \<^verbatim>\<open>out\<close> of \<^verbatim>\<open>generateTransactionId\<close>; \<open>randomNum\<close> is the value of
  \<^verbatim>\<open>Math.floor(Math.random() * 256)\<close>, a byte.
\<close>

definition generateTransactionId_out ::
  "int \<Rightarrow> byte \<Rightarrow> string \<Rightarrow> string \<Rightarrow> string \<Rightarrow> string \<Rightarrow> int option \<Rightarrow> byte list" where
  "generateTransactionId_out now randomNum method path key animationKey timeNow =
     randomNum # map (\<lambda>item. item XOR randomNum)
                   (bytesArr method path key animationKey (effectiveTimeNow now timeNow))"

definition generateTransactionId ::
  "int \<Rightarrow> byte \<Rightarrow> string \<Rightarrow> string \<Rightarrow> string \<Rightarrow> string \<Rightarrow> int option \<Rightarrow> string" where
  "generateTransactionId now randomNum method path key animationKey timeNow =
     strip_padding
       (encodeBase64 (generateTransactionId_out now randomNum method path key animationKey timeNow))"

text \<open>What a reader of the token does: XOR every byte after the first with the first.\<close>

definition unmask :: "byte list \<Rightarrow> byte list" where
  "unmask bs = (case bs of [] \<Rightarrow> [] | r # rest \<Rightarrow> map (\<lambda>b. b XOR r) rest)"

section \<open>The specification's reading of solve\<close>

text \<open>
  The specification describes the integer variant of \<^verbatim>\<open>solve\<close> as truncation toward
  zero. This definition follows those words; it is compared with the code below.
\<close>

fun truncate_toward_zero :: "number \<Rightarrow> number" where
  "truncate_toward_zero (Finite x) = Finite (if 0 \<le> x then of_int \<lfloor>x\<rfloor> else of_int \<lceil>x\<rceil>)"
| "truncate_toward_zero x = x"

section \<open>Auxiliary definitions: calculate on finite numbers\<close>

text \<open>
  The value of \<^verbatim>\<open>calculate(a, b, m)\<close> as long as no operation overflows: the same
  operations on reals, each rounded by \<open>fl\<close>.
\<close>

definition calculate_fl :: "real \<Rightarrow> real \<Rightarrow> real \<Rightarrow> real" where
  "calculate_fl a b m =
     fl (fl (fl (fl (fl (fl (3 * a) * fl (1 - m)) * fl (1 - m)) * m)
             + fl (fl (fl (fl (3 * b) * fl (1 - m)) * m) * m))
         + fl (fl (m * m) * m))"

section \<open>Auxiliary definitions: a search that does not return\<close>

text \<open>
  A curve whose second x-control is \<open>-2^60\<close>, and the lower ends \<open>1 - 2^(-j)\<close> that the
  search of \<^verbatim>\<open>getValue\<close> runs through on it.
\<close>

definition steep :: real where
  "steep = - (2 ^ 60)"

definition stuck_start :: "nat \<Rightarrow> real" where
  "stuck_start j = 1 - 2 powi (- int j)"

section \<open>Auxiliary definitions: the rounding error of calculate\<close>

text \<open>
  The polynomial that \<^verbatim>\<open>calculate(a, b, m)\<close> evaluates, without rounding; and
  \<open>close d n xh x\<close>: the computed \<open>xh\<close> is within \<open>d\<close> of the exact \<open>x\<close>, both between 0
  and \<open>n\<close>. They serve the proof that the search returns on x-controls between 0 and 1.
\<close>

definition bezier :: "real \<Rightarrow> real \<Rightarrow> real \<Rightarrow> real" where
  "bezier a b m = 3 * a * (1 - m) * (1 - m) * m + 3 * b * (1 - m) * m * m + m * m * m"

definition close :: "real \<Rightarrow> nat \<Rightarrow> real \<Rightarrow> real \<Rightarrow> bool" where
  "close d n xh x \<longleftrightarrow> \<bar>xh - x\<bar> \<le> d \<and> 0 \<le> xh \<and> xh \<le> of_nat n \<and> 0 \<le> x \<and> x \<le> of_nat n"

section \<open>Rounding to the nearest double\<close>

lemmas fl_eval = fl_def expo_def binade.simps rne_def

lemma two_powi_pos: "0 < (2::real) powi k"
  by simp

lemma two_powi_Suc: "(2::real) powi (k + 1) = 2 * 2 powi k"
  by (simp add: power_int_add)

lemma two_powi_pred: "(2::real) powi (k - 1) = 2 powi k / 2"
  by (simp add: power_int_diff)

lemma two_powi_mono: "j \<le> k \<Longrightarrow> (2::real) powi j \<le> 2 powi k"
  by (rule power_int_increasing) simp_all

lemma two_powi_less_cancel: "(2::real) powi j < 2 powi k \<Longrightarrow> j < k"
  using two_powi_mono [of k j] by (cases "j < k") simp_all

lemma binade_bounds: "0 < x \<Longrightarrow> 2 powi binade x \<le> x \<and> x < 2 powi (binade x + 1)"
proof (induction x rule: binade.induct)
  case (1 x)
  show ?case
  proof (cases "2 \<le> x")
    case True
    then have b: "binade x = binade (x / 2) + 1"
      using "1.prems" by (subst binade.simps) simp
    have "2 powi binade (x / 2) \<le> x / 2 \<and> x / 2 < 2 powi (binade (x / 2) + 1)"
      using "1.IH"(1) True "1.prems" by simp
    then have "2 * 2 powi binade (x / 2) \<le> x \<and> x < 2 * (2 * 2 powi binade (x / 2))"
      by (simp only: two_powi_Suc) linarith
    then show ?thesis
      by (simp only: b two_powi_Suc)
  next
    case False
    show ?thesis
    proof (cases "x < 1")
      case True
      then have b: "binade x = binade (2 * x) - 1"
        using "1.prems" False by (subst binade.simps) simp
      have "2 powi binade (2 * x) \<le> 2 * x \<and> 2 * x < 2 powi (binade (2 * x) + 1)"
        using "1.IH"(2) True False "1.prems" by simp
      then have "2 powi binade (2 * x) / 2 \<le> x \<and> x < 2 powi binade (2 * x)"
        by (simp only: two_powi_Suc) linarith
      then show ?thesis
        by (simp only: b two_powi_pred) simp
    next
      case F: False
      then have "binade x = 0"
        using "1.prems" False by (subst binade.simps) simp
      then show ?thesis using F False by simp
    qed
  qed
qed

lemma binade_eq:
  assumes "2 powi k \<le> x" "x < 2 powi (k + 1)"
  shows "binade x = k"
proof -
  have x: "0 < x" using assms(1) two_powi_pos [of k] by linarith
  from binade_bounds [OF x]
  have "(2::real) powi binade x < 2 powi (k + 1)" "(2::real) powi k < 2 powi (binade x + 1)"
    using assms by linarith+
  then have "binade x < k + 1" "k < binade x + 1"
    by (auto dest: two_powi_less_cancel)
  then show ?thesis by simp
qed

lemma rne_of_int: "rne (of_int n) = n"
  by (simp add: rne_def)

lemma rne_le: "y \<le> of_int n \<Longrightarrow> rne y \<le> n"
proof (cases "y = of_int n")
  case True
  then show ?thesis by (simp add: rne_of_int)
next
  case False
  assume "y \<le> of_int n"
  with False have "y < of_int n" by simp
  then have "\<lfloor>y\<rfloor> < n" by (simp add: floor_less_iff)
  then show ?thesis by (simp add: rne_def)
qed

lemma rne_ge: "of_int n \<le> y \<Longrightarrow> n \<le> rne y"
proof -
  assume "of_int n \<le> y"
  then have "n \<le> \<lfloor>y\<rfloor>" by (simp add: le_floor_iff)
  then show ?thesis by (simp add: rne_def)
qed

lemma rne_near: "\<bar>y - of_int m\<bar> < 1 / 2 \<Longrightarrow> rne y = m"
proof -
  assume a: "\<bar>y - of_int m\<bar> < 1 / 2"
  show ?thesis
  proof (cases "of_int m \<le> y")
    case True
    then have "\<lfloor>y\<rfloor> = m" using a by linarith
    then show ?thesis using a True by (simp add: rne_def)
  next
    case False
    then have f: "\<lfloor>y\<rfloor> = m - 1" using a by linarith
    have "1 / 2 < y - (of_int m - 1)" using a False by linarith
    then have "1 / 2 < y - of_int \<lfloor>y\<rfloor>" by (simp add: f)
    then show ?thesis using f by (simp add: rne_def)
  qed
qed

lemma expo_lower: "- 1074 \<le> expo x"
  by (simp add: expo_def)

lemma expo_binade: "binade \<bar>x\<bar> - 52 \<le> expo x"
  by (simp add: expo_def)

lemma expo_cases:
  "expo x = binade \<bar>x\<bar> - 52 \<and> - 1022 \<le> binade \<bar>x\<bar>
   \<or> expo x = - 1074 \<and> binade \<bar>x\<bar> < - 1022"
  unfolding expo_def max_def by auto

lemma fl_0: "fl 0 = 0"
  by (simp add: fl_def rne_def)

lemma fl_exact:
  assumes "\<bar>m\<bar> < 2 ^ 53" "- 1074 \<le> k"
  shows "fl (of_int m * 2 powi k) = of_int m * 2 powi k"
proof (cases "m = 0")
  case True
  then show ?thesis by (simp add: fl_0)
next
  case False
  define x :: real where "x = of_int m * 2 powi k"
  define u where "u = expo x"
  have ax: "\<bar>x\<bar> = of_int \<bar>m\<bar> * 2 powi k"
    by (simp add: x_def abs_mult)
  have "of_int \<bar>m\<bar> < (2::real) ^ 53"
    using assms(1) by (metis of_int_less_iff of_int_numeral of_int_power)
  then have "\<bar>x\<bar> < 2 ^ 53 * 2 powi k"
    unfolding ax by (intro mult_strict_right_mono two_powi_pos)
  then have lt: "\<bar>x\<bar> < 2 powi (53 + k)"
    by (simp add: power_int_add)
  have "0 < \<bar>x\<bar>" using False by (simp add: x_def)
  from binade_bounds [OF this] lt
  have "(2::real) powi binade \<bar>x\<bar> < 2 powi (53 + k)" by linarith
  then have "binade \<bar>x\<bar> < 53 + k" by (rule two_powi_less_cancel)
  then have uk: "u \<le> k" using assms(2) by (simp add: u_def expo_def)
  have "(2::real) powi k = 2 powi (k - u) * 2 powi u"
    by (simp flip: power_int_add)
  then have "x / 2 powi u = of_int m * 2 powi (k - u)"
    by (simp add: x_def)
  also have "\<dots> = of_int (m * 2 ^ nat (k - u))"
    using uk by (simp add: power_int_nonneg_exp)
  finally have "rne (x / 2 powi u) = m * 2 ^ nat (k - u)"
    by (simp only: rne_of_int)
  then have "fl x = of_int (m * 2 ^ nat (k - u)) * 2 powi u"
    by (simp add: fl_def u_def)
  also have "\<dots> = of_int m * (2 powi (k - u) * 2 powi u)"
    using uk by (simp add: power_int_nonneg_exp)
  also have "\<dots> = x"
    by (simp add: x_def flip: power_int_add)
  finally show ?thesis by (simp add: x_def)
qed

lemma binade_abs_le: "x \<noteq> 0 \<Longrightarrow> 2 powi binade \<bar>x\<bar> \<le> \<bar>x\<bar>"
  using binade_bounds [of "\<bar>x\<bar>"] by simp

lemma of_int_two_powi: "0 \<le> j \<Longrightarrow> (of_int (m * 2 ^ nat j) :: real) = of_int m * 2 powi j"
  by (simp add: power_int_nonneg_exp)

lemma two_powi_split: "(2::real) powi e = 2 ^ 52 * 2 powi (e - 52)"
  using power_int_add [of "2::real" 52 "e - 52"] by simp

lemma fl_le:
  assumes "x \<le> of_int m * 2 powi k" "\<bar>m\<bar> < 2 ^ 53" "- 1074 \<le> k"
  shows "fl x \<le> of_int m * 2 powi k"
proof (cases "x = 0")
  case True
  then show ?thesis using assms(1) by (simp add: fl_0)
next
  case False
  define u where "u = expo x"
  define r :: real where "r = of_int m * 2 powi k"
  have fl: "fl x = of_int (rne (x / 2 powi u)) * 2 powi u"
    by (simp add: fl_def u_def)
  show ?thesis
  proof (cases "u \<le> k")
    case True
    have "r = of_int m * (2 powi (k - u) * 2 powi u)"
      by (simp add: r_def flip: power_int_add)
    also have "\<dots> = of_int (m * 2 ^ nat (k - u)) * 2 powi u"
      using True by (simp add: power_int_nonneg_exp)
    finally have r: "r = of_int (m * 2 ^ nat (k - u)) * 2 powi u" .
    have "x / 2 powi u \<le> r / 2 powi u"
      using assms(1) by (intro divide_right_mono) (simp_all add: r_def)
    also have "r / 2 powi u = of_int (m * 2 ^ nat (k - u))"
      by (simp add: r)
    finally have "rne (x / 2 powi u) \<le> m * 2 ^ nat (k - u)"
      by (rule rne_le)
    then have "(of_int (rne (x / 2 powi u)) :: real) \<le> of_int (m * 2 ^ nat (k - u))"
      by (simp only: of_int_le_iff)
    then have "of_int (rne (x / 2 powi u)) * (2::real) powi u
                 \<le> of_int (m * 2 ^ nat (k - u)) * 2 powi u"
      by (intro mult_right_mono) simp_all
    then show ?thesis by (simp only: fl r [symmetric] r_def)
  next
    case False
    then have ku: "53 + k \<le> binade \<bar>x\<bar>" and ub: "u = binade \<bar>x\<bar> - 52"
      using assms(3) unfolding u_def expo_def max_def by (auto split: if_splits)
    have "of_int \<bar>m\<bar> < (2::real) ^ 53"
      using assms(2) by (metis of_int_less_iff of_int_numeral of_int_power)
    then have "of_int \<bar>m\<bar> * 2 powi k < (2::real) ^ 53 * 2 powi k"
      by (intro mult_strict_right_mono two_powi_pos)
    then have "\<bar>r\<bar> < 2 powi (53 + k)"
      by (simp add: r_def abs_mult power_int_add)
    also have "\<dots> \<le> 2 powi binade \<bar>x\<bar>"
      using ku by (rule two_powi_mono)
    finally have rb: "\<bar>r\<bar> < 2 powi binade \<bar>x\<bar>" .
    have xb: "2 powi binade \<bar>x\<bar> \<le> \<bar>x\<bar>"
      using \<open>x \<noteq> 0\<close> by (rule binade_abs_le)
    have "x \<le> r" using assms(1) by (simp add: r_def)
    with rb xb have neg: "x \<le> - (2 powi binade \<bar>x\<bar>)" by linarith
    have sp: "(2::real) powi binade \<bar>x\<bar> = 2 ^ 52 * 2 powi u"
      unfolding ub by (rule two_powi_split)
    then have "x / 2 powi u \<le> - (2 ^ 52)"
      using neg by (simp add: pos_divide_le_eq)
    then have "x / 2 powi u \<le> of_int (- (2 ^ 52))"
      by simp
    then have "rne (x / 2 powi u) \<le> - (2 ^ 52)"
      by (rule rne_le)
    then have "(of_int (rne (x / 2 powi u)) :: real) \<le> of_int (- (2 ^ 52))"
      by (simp only: of_int_le_iff)
    then have "of_int (rne (x / 2 powi u)) * (2::real) powi u \<le> of_int (- (2 ^ 52)) * 2 powi u"
      by (intro mult_right_mono) simp_all
    also have "\<dots> = - (2 powi binade \<bar>x\<bar>)"
      by (simp add: sp)
    finally have "fl x \<le> - (2 powi binade \<bar>x\<bar>)" by (simp only: fl)
    with rb show ?thesis unfolding r_def by linarith
  qed
qed

lemma rne_minus: "rne (- y) = - rne y"
proof (cases "y = of_int \<lfloor>y\<rfloor>")
  case True
  then have "rne y = \<lfloor>y\<rfloor>" "rne (- y) = - \<lfloor>y\<rfloor>"
    by (metis rne_of_int, metis rne_of_int of_int_minus)
  then show ?thesis by simp
next
  case False
  then have f: "\<lfloor>- y\<rfloor> = - \<lfloor>y\<rfloor> - 1" by linarith
  have d: "- y - of_int \<lfloor>- y\<rfloor> = 1 - (y - of_int \<lfloor>y\<rfloor>)" by (simp add: f)
  show ?thesis
    unfolding rne_def d unfolding f by (auto simp: not_less) 
qed

lemma expo_minus: "expo (- x) = expo x"
  by (simp add: expo_def)

lemma fl_minus: "fl (- x) = - fl x"
  by (simp add: fl_def expo_minus rne_minus)

lemma fl_ge:
  assumes "of_int m * 2 powi k \<le> x" "\<bar>m\<bar> < 2 ^ 53" "- 1074 \<le> k"
  shows "of_int m * 2 powi k \<le> fl x"
proof -
  have "fl (- x) \<le> of_int (- m) * 2 powi k"
    using assms by (intro fl_le) simp_all
  then show ?thesis by (simp add: fl_minus)
qed

lemma fl_1: "fl 1 = 1"
  using fl_exact [of 1 0] by simp


lemma fl_neg_numeral: "numeral w < (2::int) ^ 53 \<Longrightarrow> fl (- numeral w) = - numeral w"
  using fl_exact [of "- numeral w" 0] by simp

lemma fl_exact': "\<bar>m\<bar> < 2 ^ 53 \<Longrightarrow> - 1074 \<le> k \<Longrightarrow> x = of_int m * 2 powi k \<Longrightarrow> fl x = x"
  using fl_exact by simp

lemma fl_le':
  "x \<le> r \<Longrightarrow> \<bar>m\<bar> < 2 ^ 53 \<Longrightarrow> - 1074 \<le> k \<Longrightarrow> r = of_int m * 2 powi k \<Longrightarrow> fl x \<le> r"
  using fl_le by simp

lemma fl_ge':
  "r \<le> x \<Longrightarrow> \<bar>m\<bar> < 2 ^ 53 \<Longrightarrow> - 1074 \<le> k \<Longrightarrow> r = of_int m * 2 powi k \<Longrightarrow> r \<le> fl x"
  using fl_ge by simp

lemma tolerance_le: "fl 0.00001 \<le> 1 / 2"
  by (rule fl_le' [where m = 1 and k = "- 1"]) simp_all

lemma tolerance_ge: "1 / 2 ^ 17 \<le> fl 0.00001"
  by (rule fl_ge' [where m = 1 and k = "- 17"]) (simp_all add: power_int_minus)

lemma fl_neg_1: "fl (- 1) = - 1"
  using fl_exact [of "- 1" 0] by simp

lemma rne_err: "\<bar>of_int (rne y) - y\<bar> \<le> 1 / 2"
  unfolding rne_def by (auto simp: abs_le_iff)

lemma fl_grid_err: "\<bar>fl x - x\<bar> \<le> 2 powi expo x / 2"
proof -
  define u where "u = expo x"
  define y where "y = x / 2 powi u"
  have x: "x = y * 2 powi u" by (simp add: y_def)
  have "fl x - x = (of_int (rne y) - y) * 2 powi u"
    by (simp add: fl_def u_def [symmetric] y_def [symmetric] x [symmetric] algebra_simps)
  then have "\<bar>fl x - x\<bar> = \<bar>of_int (rne y) - y\<bar> * 2 powi u"
    by (simp add: abs_mult)
  also have "\<dots> \<le> 1 / 2 * 2 powi u"
    by (intro mult_right_mono rne_err) simp
  finally show ?thesis by (simp add: u_def)
qed

lemma fl_err: "\<bar>fl x - x\<bar> \<le> \<bar>x\<bar> / 2 ^ 53 + 2 powi (- 1075)"
proof (cases "x = 0")
  case True
  then show ?thesis by (simp add: fl_0)
next
  case False
  have p: "0 < (2::real) powi (- 1075)" by (rule two_powi_pos)
  have a: "0 \<le> \<bar>x\<bar> / 2 ^ 53" by simp
  from expo_cases [of x] show ?thesis
  proof
    assume c: "expo x = binade \<bar>x\<bar> - 52 \<and> - 1022 \<le> binade \<bar>x\<bar>"
    have "(2::real) powi expo x / 2 = 2 powi binade \<bar>x\<bar> / 2 ^ 53"
      using c two_powi_split [of "binade \<bar>x\<bar>"] by simp
    also have "\<dots> \<le> \<bar>x\<bar> / 2 ^ 53"
      using binade_abs_le [OF False] by (simp add: divide_right_mono)
    finally show ?thesis using fl_grid_err [of x] p by linarith
  next
    assume c: "expo x = - 1074 \<and> binade \<bar>x\<bar> < - 1022"
    have "(2::real) powi (- 1074) / 2 = 2 powi (- 1075)"
      using two_powi_pred [of "- 1074"] by simp
    then have "(2::real) powi expo x / 2 = 2 powi (- 1075)"
      using c by simp
    then show ?thesis using fl_grid_err [of x] a by linarith
  qed
qed

lemma fl_rel:
  assumes "2 powi (- 1022) \<le> \<bar>x\<bar>"
  shows "\<bar>fl x - x\<bar> \<le> \<bar>x\<bar> / 2 ^ 53"
proof -
  have x: "0 < \<bar>x\<bar>" using assms two_powi_pos [of "- 1022"] by linarith
  then have nz: "x \<noteq> 0" by simp
  from binade_bounds [OF x] assms
  have "(2::real) powi (- 1022) < 2 powi (binade \<bar>x\<bar> + 1)" by linarith
  then have "- 1022 < binade \<bar>x\<bar> + 1" by (rule two_powi_less_cancel)
  then have e: "expo x = binade \<bar>x\<bar> - 52" by (simp add: expo_def)
  have "(2::real) powi expo x / 2 = 2 powi binade \<bar>x\<bar> / 2 ^ 53"
    unfolding e using two_powi_split [of "binade \<bar>x\<bar>"] by simp
  also have "\<dots> \<le> \<bar>x\<bar> / 2 ^ 53"
    using binade_abs_le [OF nz] by (simp add: divide_right_mono)
  finally show ?thesis using fl_grid_err [of x] by linarith
qed

section \<open>Numbers that stay finite\<close>

lemma rnd_finite: "\<bar>fl x\<bar> < 2 ^ 1024 \<Longrightarrow> rnd x = Finite (fl x)"
  by (simp add: rnd_def abs_less_iff not_le)

lemma rnd_exact:
  "\<bar>m\<bar> < 2 ^ 53 \<Longrightarrow> - 1074 \<le> k \<Longrightarrow> x = of_int m * 2 powi k \<Longrightarrow> \<bar>x\<bar> < 2 ^ 1024
     \<Longrightarrow> rnd x = Finite x"
  using fl_exact' [of m k x] rnd_finite [of x] by simp

lemma rnd_0: "rnd 0 = Finite 0"
  by (simp add: rnd_def fl_0)

lemma rnd_1: "rnd 1 = Finite 1"
  by (simp add: rnd_def fl_1)


lemma fl_bounded:
  assumes "\<bar>x\<bar> \<le> of_nat n * 2 powi k" "n < 2 ^ 53" "- 1074 \<le> k"
  shows "\<bar>fl x\<bar> \<le> of_nat n * 2 powi k"
proof -
  have "int n < int (2 ^ 53)" using assms(2) by (simp only: of_nat_less_iff)
  then have n: "\<bar>int n\<bar> < 2 ^ 53" "\<bar>- int n\<bar> < 2 ^ 53"
    by simp_all
  have "fl x \<le> of_int (int n) * 2 powi k"
    using _ n(1) assms(3) by (rule fl_le) (use assms(1) in simp)
  moreover have "of_int (- int n) * 2 powi k \<le> fl x"
    using _ n(2) assms(3) by (rule fl_ge) (use assms(1) in simp)
  ultimately show ?thesis by simp
qed

section \<open>Values of solve and of the blend\<close>

lemmas rnd_eval = rnd_def fl_def expo_def binade.simps rne_def

lemma solve_False:
  "solve v mn mx False
     = js_div (Math_round (js_mul (js_add (js_div (js_mul v (js_sub mx mn)) (Finite 255)) mn)
         (Finite 100))) (Finite 100)"
  by (simp add: solve_def)

lemma solve_True:
  "solve v mn mx True = Math_floor (js_add (js_div (js_mul v (js_sub mx mn)) (Finite 255)) mn)"
  by (simp add: solve_def)

lemma solve_5_0: "solve (Finite 5) (Finite 0) (Finite 1) False = Finite (5764607523034235 / 2 ^ 58)"
proof -
  have "js_mul (js_add (js_div (js_mul (Finite 5) (js_sub (Finite 1) (Finite 0))) (Finite 255))
          (Finite 0)) (Finite 100) = Finite (8830587504648031 / 2 ^ 52)"
    by (simp add: rnd_eval)
  then show ?thesis
    by (simp add: solve_False) (simp add: rnd_eval)
qed

lemma solve_5_m1:
  "solve (Finite 5) (Finite (- 1)) (Finite 1) False = Finite (- (8646911284551352 / 2 ^ 53))"
proof -
  have "js_mul (js_add (js_div (js_mul (Finite 5) (js_sub (Finite 1) (Finite (- 1)))) (Finite 255))
          (Finite (- 1))) (Finite 100) = Finite (- (6760918558246149 / 2 ^ 46))"
    by (simp add: rnd_eval)
  then show ?thesis
    by (simp add: solve_False) (simp add: rnd_eval)
qed




text \<open>
  Below the normal range the blend loses everything: the two halves of the smallest
  subnormal double both round to 0.
\<close>

lemma fl_half_tiny: "fl (2 powi (- 1075)) = 0"
proof -
  have "binade \<bar>2 powi (- 1075)\<bar> = - 1075"
    by (rule binade_eq) (simp_all add: two_powi_mono)
  then have e: "expo (2 powi (- 1075)) = - 1074"
    by (simp add: expo_def)
  have "(2::real) powi (- 1075) / 2 powi (- 1074) = 2 powi (- 1)"
    by (simp flip: power_int_diff)
  then have r: "rne (2 powi (- 1075) / 2 powi (- 1074)) = 0"
    by (simp add: rne_def)
  show ?thesis unfolding fl_def e r by simp
qed

lemma blend_underflow:
  "js_add (js_mul (Finite (2 powi (- 1074))) (js_sub (Finite 1) (Finite (1 / 2))))
     (js_mul (Finite (2 powi (- 1074))) (Finite (1 / 2))) = Finite 0"
proof -
  define x :: real where "x = 2 powi (- 1074)"
  define y :: real where "y = 2 powi (- 1075)"
  have a: "js_sub (Finite 1) (Finite (1 / 2)) = Finite (1 / 2)"
    using rnd_exact [of 1 "- 1" "1 / 2"] by simp
  have b: "js_mul (Finite x) (Finite (1 / 2)) = rnd (x * (1 / 2))"
    by (rule js_mul.simps)
  have c: "x * (1 / 2) = y"
    unfolding x_def y_def using two_powi_pred [of "- 1074"] by simp
  have "fl y = 0" unfolding y_def by (rule fl_half_tiny)
  then have d: "rnd y = Finite 0" by (simp add: rnd_def)
  have "js_add (js_mul (Finite x) (js_sub (Finite 1) (Finite (1 / 2))))
          (js_mul (Finite x) (Finite (1 / 2))) = Finite 0"
    unfolding a b c d by (simp add: rnd_0)
  then show ?thesis unfolding x_def .
qed

section \<open>calculate on finite numbers\<close>

lemma fl_bound_64: "\<bar>x\<bar> \<le> 2 ^ 64 \<Longrightarrow> \<bar>fl x\<bar> \<le> 2 ^ 64"
  using fl_bounded [of x 1 64] by simp

lemma fl_bound_65: "\<bar>x\<bar> \<le> 2 ^ 65 \<Longrightarrow> \<bar>fl x\<bar> \<le> 2 ^ 65"
  using fl_bounded [of x 1 65] by simp

lemma fl_bound_66: "\<bar>x\<bar> \<le> 2 ^ 66 \<Longrightarrow> \<bar>fl x\<bar> \<le> 2 ^ 66"
  using fl_bounded [of x 1 66] by simp

lemma fl_unit: "0 \<le> x \<Longrightarrow> x \<le> 1 \<Longrightarrow> 0 \<le> fl x \<and> fl x \<le> 1"
  using fl_ge' [of 0 x 0 0] fl_le' [of x 1 1 0] by simp

lemma rnd_small: "\<bar>fl x\<bar> \<le> 2 ^ 66 \<Longrightarrow> rnd x = Finite (fl x)"
  by (rule rnd_finite) simp

lemma unit_scale: "\<bar>x\<bar> \<le> B \<Longrightarrow> 0 \<le> y \<Longrightarrow> y \<le> 1 \<Longrightarrow> \<bar>x * y\<bar> \<le> (B::real)"
proof -
  assume a: "\<bar>x\<bar> \<le> B" "0 \<le> y" "y \<le> 1"
  have "\<bar>x\<bar> * y \<le> \<bar>x\<bar> * 1" using a(3) by (intro mult_left_mono) simp_all
  then show ?thesis using a by (simp add: abs_mult)
qed

lemma calculate_Finite:
  assumes a: "\<bar>a\<bar> \<le> 2 ^ 62" and b: "\<bar>b\<bar> \<le> 2 ^ 62" and m: "0 \<le> m" "m \<le> 1"
  shows "calculate (Finite a) (Finite b) (Finite m) = Finite (calculate_fl a b m)"
    and "\<bar>calculate_fl a b m\<bar> \<le> 2 ^ 66"
proof -
  define s where "s = fl (1 - m)"
  have s: "0 \<le> s" "s \<le> 1"
    using fl_unit [of "1 - m"] m by (simp_all add: s_def)
  define t1 where "t1 = fl (3 * a)"
  define t2 where "t2 = fl (t1 * s)"
  define t3 where "t3 = fl (t2 * s)"
  define t4 where "t4 = fl (t3 * m)"
  define u1 where "u1 = fl (3 * b)"
  define u2 where "u2 = fl (u1 * s)"
  define u3 where "u3 = fl (u2 * m)"
  define u4 where "u4 = fl (u3 * m)"
  define v1 where "v1 = fl (m * m)"
  define v2 where "v2 = fl (v1 * m)"
  define w1 where "w1 = fl (t4 + u4)"
  define w2 where "w2 = fl (w1 + v2)"
  have t1: "\<bar>t1\<bar> \<le> 2 ^ 64" unfolding t1_def by (rule fl_bound_64) (use a in simp)
  have t2: "\<bar>t2\<bar> \<le> 2 ^ 64" unfolding t2_def by (intro fl_bound_64 unit_scale t1 s)
  have t3: "\<bar>t3\<bar> \<le> 2 ^ 64" unfolding t3_def by (intro fl_bound_64 unit_scale t2 s)
  have t4: "\<bar>t4\<bar> \<le> 2 ^ 64" unfolding t4_def by (intro fl_bound_64 unit_scale t3 m)
  have u1: "\<bar>u1\<bar> \<le> 2 ^ 64" unfolding u1_def by (rule fl_bound_64) (use b in simp)
  have u2: "\<bar>u2\<bar> \<le> 2 ^ 64" unfolding u2_def by (intro fl_bound_64 unit_scale u1 s)
  have u3: "\<bar>u3\<bar> \<le> 2 ^ 64" unfolding u3_def by (intro fl_bound_64 unit_scale u2 m)
  have u4: "\<bar>u4\<bar> \<le> 2 ^ 64" unfolding u4_def by (intro fl_bound_64 unit_scale u3 m)
  have v1: "0 \<le> v1" "v1 \<le> 1"
    using fl_unit [of "m * m"] m by (simp_all add: v1_def mult_le_one)
  have v2: "0 \<le> v2" "v2 \<le> 1"
    using fl_unit [of "v1 * m"] m v1 by (simp_all add: v2_def mult_le_one)
  have w1: "\<bar>w1\<bar> \<le> 2 ^ 65" unfolding w1_def by (rule fl_bound_65) (use t4 u4 in simp)
  have w2: "\<bar>w2\<bar> \<le> 2 ^ 66" unfolding w2_def by (rule fl_bound_66) (use w1 v2 in simp)
  have le: "\<bar>x\<bar> \<le> 2 ^ 64 \<Longrightarrow> \<bar>x\<bar> \<le> 2 ^ 66" "\<bar>x\<bar> \<le> 2 ^ 65 \<Longrightarrow> \<bar>x\<bar> \<le> 2 ^ 66"
    "0 \<le> x \<Longrightarrow> x \<le> 1 \<Longrightarrow> \<bar>x\<bar> \<le> 2 ^ 66" for x :: real
    by simp_all
  have fs: "js_sub (Finite 1) (Finite m) = Finite s"
    using s by (simp add: s_def [symmetric] rnd_small le)
  have f1: "js_mul (Finite 3) (Finite a) = Finite t1"
    using t1 by (simp add: t1_def [symmetric] rnd_small le)
  have f2: "js_mul (Finite t1) (Finite s) = Finite t2"
    using t2 by (simp add: t2_def [symmetric] rnd_small le)
  have f3: "js_mul (Finite t2) (Finite s) = Finite t3"
    using t3 by (simp add: t3_def [symmetric] rnd_small le)
  have f4: "js_mul (Finite t3) (Finite m) = Finite t4"
    using t4 by (simp add: t4_def [symmetric] rnd_small le)
  have g1: "js_mul (Finite 3) (Finite b) = Finite u1"
    using u1 by (simp add: u1_def [symmetric] rnd_small le)
  have g2: "js_mul (Finite u1) (Finite s) = Finite u2"
    using u2 by (simp add: u2_def [symmetric] rnd_small le)
  have g3: "js_mul (Finite u2) (Finite m) = Finite u3"
    using u3 by (simp add: u3_def [symmetric] rnd_small le)
  have g4: "js_mul (Finite u3) (Finite m) = Finite u4"
    using u4 by (simp add: u4_def [symmetric] rnd_small le)
  have h1: "js_mul (Finite m) (Finite m) = Finite v1"
    using v1 by (simp add: v1_def [symmetric] rnd_small le)
  have h2: "js_mul (Finite v1) (Finite m) = Finite v2"
    using v2 by (simp add: v2_def [symmetric] rnd_small le)
  have k1: "js_add (Finite t4) (Finite u4) = Finite w1"
    using w1 by (simp add: w1_def [symmetric] rnd_small le)
  have k2: "js_add (Finite w1) (Finite v2) = Finite w2"
    using w2 by (simp add: w2_def [symmetric] rnd_small le)
  have c: "calculate_fl a b m = w2"
    by (simp add: calculate_fl_def w2_def w1_def v2_def v1_def u4_def u3_def u2_def u1_def
          t4_def t3_def t2_def t1_def s_def)
  show "calculate (Finite a) (Finite b) (Finite m) = Finite (calculate_fl a b m)"
    unfolding calculate_def c by (simp only: fs f1 f2 f3 f4 g1 g2 g3 g4 h1 h2 k1 k2)
  show "\<bar>calculate_fl a b m\<bar> \<le> 2 ^ 66"
    unfolding c by (rule w2)
qed

section \<open>The search on the steep curve\<close>

lemma stuck_start_0: "stuck_start 0 = 0"
  by (simp add: stuck_start_def)

lemma stuck_start_less: "stuck_start j < 1"
  by (simp add: stuck_start_def)

lemma stuck_start_ge: "1 \<le> j \<Longrightarrow> 1 / 2 \<le> stuck_start j"
proof -
  assume "1 \<le> j"
  then have "(2::real) powi (- int j) \<le> 2 powi (- 1)"
    by (intro two_powi_mono) simp
  then show ?thesis by (simp add: stuck_start_def)
qed

lemma stuck_start_nonneg: "0 \<le> stuck_start j"
proof -
  have "(2::real) powi (- int j) \<le> 2 powi 0"
    by (intro two_powi_mono) simp
  then show ?thesis by (simp add: stuck_start_def)
qed

lemma mid_step:
  assumes "j \<le> 52"
  shows "js_div (js_add (Finite (stuck_start j)) (Finite 1)) (Finite 2)
           = Finite (stuck_start (Suc j))"
proof -
  have m: "\<bar>2 ^ Suc j - 1 :: int\<bar> < 2 ^ 53"
  proof -
    have "(2::int) ^ Suc j \<le> 2 ^ 53"
      using assms by (intro power_increasing) simp_all
    moreover have "(1::int) \<le> 2 ^ Suc j" by (rule one_le_power) simp
    ultimately show ?thesis by linarith
  qed
  have k: "- 1074 \<le> - int j" "- 1074 \<le> - int (Suc j)" using assms by simp_all
  have p: "(2::real) powi (- int j) * 2 ^ Suc j = 2"
    by (simp add: power_int_minus field_simps)
  have s: "stuck_start j + 1 = of_int (2 ^ Suc j - 1) * 2 powi (- int j)"
    using p by (simp add: stuck_start_def algebra_simps)
  have r: "\<bar>stuck_start j + 1\<bar> < 2 ^ 1024" "\<bar>(stuck_start j + 1) / 2\<bar> < 2 ^ 1024"
    using stuck_start_less [of j] stuck_start_nonneg [of j] by simp_all
  have a: "js_add (Finite (stuck_start j)) (Finite 1) = Finite (stuck_start j + 1)"
    using rnd_exact [OF m k(1) s r(1)] by simp
  have "- int (Suc j) = - int j - 1" by simp
  then have h: "(2::real) powi (- int (Suc j)) * 2 = 2 powi (- int j)"
    by (simp only: two_powi_pred)
  have d: "(stuck_start j + 1) / 2 = of_int (2 ^ Suc j - 1) * 2 powi (- int (Suc j))"
    unfolding s using h by (simp add: field_simps)
  have "js_div (Finite (stuck_start j + 1)) (Finite 2) = Finite ((stuck_start j + 1) / 2)"
    using rnd_exact [OF m k(2) d r(2)] by simp
  also have "(stuck_start j + 1) / 2 = stuck_start (Suc j)"
    using h by (simp add: stuck_start_def field_simps)
  finally show ?thesis by (simp only: a)
qed

lemma mid_last: "js_div (js_add (Finite (stuck_start 53)) (Finite 1)) (Finite 2) = Finite 1"
proof -
  have v: "stuck_start 53 = 1 - 1 / 2 ^ 53"
    by (simp add: stuck_start_def power_int_minus field_simps)
  have "js_add (Finite (stuck_start 53)) (Finite 1) = Finite 2"
    unfolding v by (simp add: rnd_eval)
  then show ?thesis
    by (simp add: rnd_1)
qed

lemma calculate_at_1: "calculate (Finite 0) (Finite steep) (Finite 1) = Finite 1"
proof -
  have "js_mul (Finite 3) (Finite steep) = Finite (- 3 * 2 ^ 60)"
    using rnd_exact [of "- 3" 60 "- 3 * 2 ^ 60"] by (simp add: steep_def)
  then show ?thesis
    by (simp add: calculate_def rnd_0 rnd_1)
qed

lemma calculate_steep:
  assumes "1 \<le> i" "i \<le> 53"
  shows "calculate_fl 0 steep (stuck_start i) \<le> - 95"
proof -
  define m where "m = stuck_start i"
  have m: "1 / 2 \<le> m" "m < 1"
    using assms stuck_start_ge stuck_start_less by (simp_all add: m_def)
  have k: "- 1074 \<le> - int i" "- 1074 \<le> 60 - int i" "- 1074 \<le> 59 - int i" "- 1074 \<le> 58 - int i"
    using assms by simp_all
  have s: "fl (1 - m) = 2 powi (- int i)"
    by (rule fl_exact' [where m = 1 and k = "- int i", THEN trans])
      (use k in \<open>simp_all add: m_def stuck_start_def\<close>)
  have q1: "fl (3 * steep) = of_int (- 3) * 2 powi 60"
    by (rule fl_exact' [where m = "- 3" and k = 60, THEN trans]) (simp_all add: steep_def)
  have q2: "fl (fl (3 * steep) * fl (1 - m)) = of_int (- 3) * 2 powi (60 - int i)"
    unfolding q1 s
    by (rule fl_exact' [where m = "- 3" and k = "60 - int i", THEN trans])
      (use k in \<open>simp_all add: power_int_diff power_int_minus field_simps\<close>)
  define q where "q = (2::real) powi (58 - int i)"
  have q: "32 \<le> q"
  proof -
    have "(2::real) powi 5 \<le> 2 powi (58 - int i)"
      using assms by (intro two_powi_mono) simp
    then show ?thesis by (simp add: q_def)
  qed
  have e60: "(2::real) powi (60 - int i) = 4 * q"
    using power_int_add [of "2::real" 2 "58 - int i"] by (simp add: q_def)
  have e59: "(2::real) powi (59 - int i) = 2 * q"
    using power_int_add [of "2::real" 1 "58 - int i"] by (simp add: q_def)
  define t3 where "t3 = fl (fl (fl (3 * steep) * fl (1 - m)) * m)"
  have q3: "t3 \<le> of_int (- 3) * 2 powi (59 - int i)"
    unfolding t3_def q2
  proof (rule fl_le' [where m = "- 3" and k = "59 - int i"])
    have "(2 * q) * 1 \<le> (4 * q) * m" using m q by (simp add: algebra_simps)
    then show "of_int (- 3) * 2 powi (60 - int i) * m \<le> of_int (- 3) * 2 powi (59 - int i)"
      by (simp add: e60 e59)
  qed (use k in simp_all)
  have t3: "t3 \<le> - 6 * q"
    using q3 by (simp add: e59)
  define t4 where "t4 = fl (t3 * m)"
  have q4: "t4 \<le> of_int (- 3) * 2 powi (58 - int i)"
    unfolding t4_def
  proof (rule fl_le' [where m = "- 3" and k = "58 - int i"])
    have "t3 * m \<le> (- 6 * q) * m"
      using t3 m by (intro mult_right_mono) simp_all
    also have "\<dots> \<le> - 3 * q"
      using m q by simp
    finally show "t3 * m \<le> of_int (- 3) * 2 powi (58 - int i)"
      by (simp add: q_def)
  qed (use k in simp_all)
  have t4: "t4 \<le> - 3 * q"
    using q4 by (simp add: q_def)
  define u where "u = fl (0 + t4)"
  have ab: "u \<le> of_int (- 3) * 2 powi (58 - int i)"
    unfolding u_def
    by (rule fl_le' [where m = "- 3" and k = "58 - int i"]) (use t4 k in \<open>simp_all add: q_def\<close>)
  have u: "u \<le> - 96"
    using ab q by (simp add: q_def [symmetric])
  define c1 where "c1 = fl (m * m)"
  have c1: "c1 \<le> 1" "0 \<le> c1"
    using fl_unit [of "m * m"] m by (simp_all add: c1_def mult_le_one)
  define c2 where "c2 = fl (c1 * m)"
  have c2: "c2 \<le> 1"
    using fl_unit [of "c1 * m"] m c1 by (simp add: c2_def mult_le_one)
  have "fl (u + c2) \<le> - 95"
    by (rule fl_le' [where m = "- 95" and k = 0]) (use u c2 in simp_all)
  then show ?thesis
    by (simp add: calculate_fl_def fl_0 m_def [symmetric] u_def t4_def t3_def c2_def c1_def)
qed

lemma steep_value:
  assumes "1 \<le> i" "i \<le> 53"
  shows "\<exists>x. calculate (Finite 0) (Finite steep) (Finite (stuck_start i)) = Finite x
           \<and> - (2 ^ 66) \<le> x \<and> x \<le> - 95"
proof -
  have m: "0 \<le> stuck_start i" "stuck_start i \<le> 1"
    using stuck_start_nonneg [of i] stuck_start_less [of i] by simp_all
  have s: "\<bar>steep\<bar> \<le> 2 ^ 62" "\<bar>0 :: real\<bar> \<le> 2 ^ 62" by (simp_all add: steep_def)
  from calculate_Finite [OF s(2) s(1) m] calculate_steep [OF assms]
  show ?thesis by (simp add: abs_le_iff)
qed

lemma far_from_half:
  assumes "- (2 ^ 66) \<le> x" "x \<le> - 95"
  shows "\<not> js_lt (Math_abs (js_sub (Finite (1 / 2)) (Finite x))) (Finite (fl 0.00001))"
proof -
  have "95 \<le> fl (1 / 2 - x)"
    by (rule fl_ge' [where m = 95 and k = 0]) (use assms in simp_all)
  moreover have "fl (1 / 2 - x) \<le> 2 ^ 67"
    by (rule fl_le' [where m = 1 and k = 67]) (use assms in simp_all)
  ultimately show ?thesis using tolerance_le by (simp add: rnd_def)
qed

lemma one_from_half:
  "\<not> js_lt (Math_abs (js_sub (Finite (1 / 2)) (Finite 1))) (Finite (fl 0.00001))"
proof -
  have "fl (1 / 2 - 1) = - (1 / 2)"
    by (rule fl_exact' [where m = "- 1" and k = "- 1", THEN trans]) simp_all
  then show ?thesis using tolerance_le by (simp add: rnd_def)
qed

lemma getValue_loop_stuck:
  assumes "getValue_loop curves time start mid end = Some y"
  shows "\<not> (curves = [Finite 0, Finite 0, Finite steep, Finite 0] \<and> time = Finite (1 / 2)
            \<and> end = Finite 1 \<and> (\<exists>j. j \<le> 53 \<and> start = Finite (stuck_start j)))"
proof (rule getValue_loop.raw_induct
    [where P = "\<lambda>curves time start mid end y.
       \<not> (curves = [Finite 0, Finite 0, Finite steep, Finite 0] \<and> time = Finite (1 / 2)
            \<and> end = Finite 1 \<and> (\<exists>j. j \<le> 53 \<and> start = Finite (stuck_start j)))", OF _ assms])
  fix loop :: "number list \<Rightarrow> number \<Rightarrow> number \<Rightarrow> number \<Rightarrow> number \<Rightarrow> number option"
    and curves time start mid "end" y
  assume hyps1: "\<And>curves time start mid end y. loop curves time start mid end = Some y \<Longrightarrow>
       \<not> (curves = [Finite 0, Finite 0, Finite steep, Finite 0] \<and> time = Finite (1 / 2)
            \<and> end = Finite 1 \<and> (\<exists>j. j \<le> 53 \<and> start = Finite (stuck_start j)))"
    and hyps2: "(if js_lt start end
      then if js_lt
                (Math_abs (js_sub time
                   (calculate (curves ! 0) (curves ! 2) (js_div (js_add start end) (Finite 2)))))
                (Finite (fl 0.00001))
           then Some (calculate (curves ! 1) (curves ! 3) (js_div (js_add start end) (Finite 2)))
           else if js_lt (calculate (curves ! 0) (curves ! 2) (js_div (js_add start end) (Finite 2)))
                     time
                then loop curves time (js_div (js_add start end) (Finite 2))
                      (js_div (js_add start end) (Finite 2)) end
                else loop curves time start (js_div (js_add start end) (Finite 2))
                      (js_div (js_add start end) (Finite 2))
      else Some (calculate (curves ! 1) (curves ! 3) mid)) = Some y"
  show "\<not> (curves = [Finite 0, Finite 0, Finite steep, Finite 0] \<and> time = Finite (1 / 2)
            \<and> end = Finite 1 \<and> (\<exists>j. j \<le> 53 \<and> start = Finite (stuck_start j)))"
  proof
    assume a: "curves = [Finite 0, Finite 0, Finite steep, Finite 0] \<and> time = Finite (1 / 2)
            \<and> end = Finite 1 \<and> (\<exists>j. j \<le> 53 \<and> start = Finite (stuck_start j))"
    then obtain j where j: "j \<le> 53" "start = Finite (stuck_start j)" by blast
    have cs: "curves = [Finite 0, Finite 0, Finite steep, Finite 0]"
      and t: "time = Finite (1 / 2)" and e: "end = Finite 1"
      using a by blast+
    have c: "curves ! 0 = Finite 0" "curves ! 2 = Finite steep"
      unfolding cs by simp_all
    define mid' where "mid' = js_div (js_add (Finite (stuck_start j)) (Finite 1)) (Finite 2)"
    have body: "(if js_lt (Math_abs (js_sub (Finite (1 / 2))
                    (calculate (Finite 0) (Finite steep) mid'))) (Finite (fl 0.00001))
           then Some (calculate (curves ! 1) (curves ! 3) mid')
           else if js_lt (calculate (Finite 0) (Finite steep) mid') (Finite (1 / 2))
           then loop curves (Finite (1 / 2)) mid' mid' (Finite 1)
           else loop curves (Finite (1 / 2)) (Finite (stuck_start j)) mid' mid') = Some y"
      using hyps2 stuck_start_less [of j] unfolding c t e j(2) mid'_def by simp
    show False
    proof (cases "j \<le> 52")
      case True
      then have mid: "mid' = Finite (stuck_start (Suc j))"
        unfolding mid'_def by (rule mid_step)
      obtain x where x: "calculate (Finite 0) (Finite steep) (Finite (stuck_start (Suc j))) = Finite x"
        "- (2 ^ 66) \<le> x" "x \<le> - 95"
        using steep_value [of "Suc j"] True by auto
      have x': "js_lt (Finite x) (Finite (1 / 2))" using x(3) by simp
      have "loop curves (Finite (1 / 2)) (Finite (stuck_start (Suc j)))
              (Finite (stuck_start (Suc j))) (Finite 1) = Some y"
        using body unfolding mid x(1)
        by (simp only: far_from_half [OF x(2,3)] x' if_False if_True)
      from hyps1 [OF this]
      have "\<not> (\<exists>j'. j' \<le> 53 \<and> stuck_start (Suc j) = stuck_start j')"
        unfolding cs by simp
      moreover have "\<exists>j'. j' \<le> 53 \<and> stuck_start (Suc j) = stuck_start j'"
        by (rule exI [of _ "Suc j"]) (use True in simp)
      ultimately show False by contradiction
    next
      case False
      then have j53: "j = 53" using j by simp
      have mid: "mid' = Finite 1"
        unfolding mid'_def j53 by (rule mid_last)
      have x': "\<not> js_lt (calculate (Finite 0) (Finite steep) (Finite 1)) (Finite (1 / 2))"
        by (simp add: calculate_at_1)
      have x'': "\<not> js_lt (Math_abs (js_sub (Finite (1 / 2))
                    (calculate (Finite 0) (Finite steep) (Finite 1)))) (Finite (fl 0.00001))"
        unfolding calculate_at_1 by (rule one_from_half)
      have "loop curves (Finite (1 / 2)) (Finite (stuck_start j)) (Finite 1) (Finite 1) = Some y"
        using body unfolding mid by (simp only: x' x'' if_False)
      from hyps1 [OF this]
      have "\<not> (\<exists>j'. j' \<le> 53 \<and> stuck_start j = stuck_start j')"
        unfolding cs by simp
      moreover have "\<exists>j'. j' \<le> 53 \<and> stuck_start j = stuck_start j'"
        by (rule exI [of _ j]) (use j in simp)
      ultimately show False by contradiction
    qed
  qed
qed

section \<open>The rounding error of calculate\<close>

lemma fl_err_8: "\<bar>x\<bar> \<le> 8 \<Longrightarrow> \<bar>fl x - x\<bar> \<le> 1 / 2 ^ 49"
proof -
  assume "\<bar>x\<bar> \<le> 8"
  then have "\<bar>x\<bar> / 2 ^ 53 \<le> 8 / 2 ^ 53" by (rule divide_right_mono) simp
  moreover have "(2::real) powi (- 1075) \<le> 2 powi (- 50)"
    by (rule two_powi_mono) simp
  ultimately show ?thesis
    using fl_err [of x] by (simp add: power_int_minus field_simps)
qed

lemma fl_range:
  assumes "0 \<le> x" "x \<le> of_nat n" "n \<le> 8"
  shows "0 \<le> fl x" "fl x \<le> of_nat n"
proof -
  show "0 \<le> fl x"
    by (rule fl_ge' [where m = 0 and k = 0]) (use assms in simp_all)
  have "\<bar>int n\<bar> < 2 ^ 53" using assms(3) by simp
  then show "fl x \<le> of_nat n"
    by (rule fl_le' [where m = "int n" and k = 0, OF assms(2)]) simp_all
qed

lemma close_exact: "0 \<le> x \<Longrightarrow> x \<le> of_nat n \<Longrightarrow> close 0 n x x"
  by (simp add: close_def)

lemma close_mul:
  assumes x: "close d n xh x" and y: "close d' 1 yh y" and n: "n \<le> 3"
  shows "close (d + 3 * d' + 1 / 2 ^ 49) n (fl (xh * yh)) (x * y)"
proof -
  have xs: "\<bar>xh - x\<bar> \<le> d" "0 \<le> xh" "xh \<le> of_nat n" "0 \<le> x" "x \<le> of_nat n"
    using x by (simp_all add: close_def)
  have ys: "\<bar>yh - y\<bar> \<le> d'" "0 \<le> yh" "yh \<le> 1" "0 \<le> y" "y \<le> 1"
    using y by (simp_all add: close_def)
  have n3: "(of_nat n :: real) \<le> 3" using n by simp
  have p: "0 \<le> xh * yh" "xh * yh \<le> of_nat n"
  proof -
    show "0 \<le> xh * yh" using xs ys by simp
    have "xh * yh \<le> xh * 1" using ys xs by (intro mult_left_mono) simp_all
    then show "xh * yh \<le> of_nat n" using xs by simp
  qed
  have q: "0 \<le> x * y" "x * y \<le> of_nat n"
  proof -
    show "0 \<le> x * y" using xs ys by simp
    have "x * y \<le> x * 1" using ys xs by (intro mult_left_mono) simp_all
    then show "x * y \<le> of_nat n" using xs by simp
  qed
  have r: "0 \<le> fl (xh * yh)" "fl (xh * yh) \<le> of_nat n"
    using fl_range [OF p] n by simp_all
  have "\<bar>xh * yh\<bar> \<le> 8" using p n3 by simp
  then have e: "\<bar>fl (xh * yh) - xh * yh\<bar> \<le> 1 / 2 ^ 49" by (rule fl_err_8)
  have "\<bar>(xh - x) * yh\<bar> \<le> d * 1"
    unfolding abs_mult using xs ys by (intro mult_mono) simp_all
  moreover have "\<bar>x * (yh - y)\<bar> \<le> 3 * d'"
    unfolding abs_mult using xs ys n3 by (intro mult_mono) simp_all
  moreover have "xh * yh - x * y = (xh - x) * yh + x * (yh - y)"
    by (simp add: algebra_simps)
  ultimately have "\<bar>xh * yh - x * y\<bar> \<le> d + 3 * d'" by linarith
  then have "\<bar>fl (xh * yh) - x * y\<bar> \<le> d + 3 * d' + 1 / 2 ^ 49"
    using e by linarith
  then show ?thesis using r q by (simp add: close_def)
qed

lemma close_add:
  assumes x: "close d n xh x" and y: "close d' k yh y" and n: "n + k \<le> 8"
  shows "close (d + d' + 1 / 2 ^ 49) (n + k) (fl (xh + yh)) (x + y)"
proof -
  have xs: "\<bar>xh - x\<bar> \<le> d" "0 \<le> xh" "xh \<le> of_nat n" "0 \<le> x" "x \<le> of_nat n"
    using x by (simp_all add: close_def)
  have ys: "\<bar>yh - y\<bar> \<le> d'" "0 \<le> yh" "yh \<le> of_nat k" "0 \<le> y" "y \<le> of_nat k"
    using y by (simp_all add: close_def)
  have p: "0 \<le> xh + yh" "xh + yh \<le> of_nat (n + k)"
    using xs ys by simp_all
  have r: "0 \<le> fl (xh + yh)" "fl (xh + yh) \<le> of_nat (n + k)"
    using fl_range [OF p n] by simp_all
  have "(of_nat (n + k) :: real) \<le> of_nat 8" using n by (simp only: of_nat_le_iff)
  then have "(of_nat (n + k) :: real) \<le> 8" by simp
  then have "\<bar>xh + yh\<bar> \<le> 8" using p by simp
  then have e: "\<bar>fl (xh + yh) - (xh + yh)\<bar> \<le> 1 / 2 ^ 49" by (rule fl_err_8)
  have "\<bar>fl (xh + yh) - (x + y)\<bar> \<le> d + d' + 1 / 2 ^ 49"
    using e xs(1) ys(1) by linarith
  then show ?thesis using r xs ys by (simp add: close_def)
qed

lemma close_sub_one:
  assumes "0 \<le> m" "m \<le> 1"
  shows "close (1 / 2 ^ 49) 1 (fl (1 - m)) (1 - m)"
proof -
  have "\<bar>1 - m\<bar> \<le> 8" using assms by simp
  then have "\<bar>fl (1 - m) - (1 - m)\<bar> \<le> 1 / 2 ^ 49" by (rule fl_err_8)
  moreover have "0 \<le> fl (1 - m)" "fl (1 - m) \<le> 1"
    using fl_unit [of "1 - m"] assms by simp_all
  ultimately show ?thesis using assms by (simp add: close_def)
qed

lemma calculate_close:
  assumes a: "0 \<le> a" "a \<le> 1" and b: "0 \<le> b" "b \<le> 1" and m: "0 \<le> m" "m \<le> 1"
  shows "close (21 / 2 ^ 49) 7 (calculate_fl a b m) (bezier a b m)"
proof -
  have c3: "close 0 3 3 3" by (simp add: close_def)
  have ca: "close 0 1 a a" using a by (simp add: close_def)
  have cb: "close 0 1 b b" using b by (simp add: close_def)
  have cm: "close 0 1 m m" using m by (simp add: close_def)
  have cm3: "close 0 3 m m" using m by (simp add: close_def)
  have s: "close (1 / 2 ^ 49) 1 (fl (1 - m)) (1 - m)" using m by (rule close_sub_one)
  have t1: "close (1 / 2 ^ 49) 3 (fl (3 * a)) (3 * a)"
    using close_mul [OF c3 ca] by simp
  have t2: "close (5 / 2 ^ 49) 3 (fl (fl (3 * a) * fl (1 - m))) (3 * a * (1 - m))"
    using close_mul [OF t1 s] by simp
  have t3: "close (9 / 2 ^ 49) 3 (fl (fl (fl (3 * a) * fl (1 - m)) * fl (1 - m)))
              (3 * a * (1 - m) * (1 - m))"
    using close_mul [OF t2 s] by simp
  have t4: "close (10 / 2 ^ 49) 3 (fl (fl (fl (fl (3 * a) * fl (1 - m)) * fl (1 - m)) * m))
              (3 * a * (1 - m) * (1 - m) * m)"
    using close_mul [OF t3 cm] by simp
  have u1: "close (1 / 2 ^ 49) 3 (fl (3 * b)) (3 * b)"
    using close_mul [OF c3 cb] by simp
  have u2: "close (5 / 2 ^ 49) 3 (fl (fl (3 * b) * fl (1 - m))) (3 * b * (1 - m))"
    using close_mul [OF u1 s] by simp
  have u3: "close (6 / 2 ^ 49) 3 (fl (fl (fl (3 * b) * fl (1 - m)) * m)) (3 * b * (1 - m) * m)"
    using close_mul [OF u2 cm] by simp
  have u4: "close (7 / 2 ^ 49) 3 (fl (fl (fl (fl (3 * b) * fl (1 - m)) * m) * m))
              (3 * b * (1 - m) * m * m)"
    using close_mul [OF u3 cm] by simp
  have v1: "close (1 / 2 ^ 49) 1 (fl (m * m)) (m * m)"
    using close_mul [OF cm cm] by simp
  have v2: "close (2 / 2 ^ 49) 1 (fl (fl (m * m) * m)) (m * m * m)"
    using close_mul [OF v1 cm] by simp
  have w1: "close (18 / 2 ^ 49) 6
              (fl (fl (fl (fl (fl (3 * a) * fl (1 - m)) * fl (1 - m)) * m)
                   + fl (fl (fl (fl (3 * b) * fl (1 - m)) * m) * m)))
              (3 * a * (1 - m) * (1 - m) * m + 3 * b * (1 - m) * m * m)"
    using close_add [OF t4 u4] by simp
  have w2: "close (21 / 2 ^ 49) 7 (calculate_fl a b m) (bezier a b m)"
    unfolding calculate_fl_def bezier_def using close_add [OF w1 v2] by simp
  then show ?thesis .
qed

lemma calculate_err:
  assumes "0 \<le> a" "a \<le> 1" "0 \<le> b" "b \<le> 1" "0 \<le> m" "m \<le> 1"
  shows "\<bar>calculate_fl a b m - bezier a b m\<bar> \<le> 1 / 2 ^ 44"
    and "0 \<le> calculate_fl a b m" and "calculate_fl a b m \<le> 7"
proof -
  from calculate_close [OF assms]
  have c: "\<bar>calculate_fl a b m - bezier a b m\<bar> \<le> 21 / 2 ^ 49"
    "0 \<le> calculate_fl a b m" "calculate_fl a b m \<le> 7"
    by (simp_all add: close_def)
  show "\<bar>calculate_fl a b m - bezier a b m\<bar> \<le> 1 / 2 ^ 44"
    using c(1) by simp
  show "0 \<le> calculate_fl a b m" "calculate_fl a b m \<le> 7" by (rule c(2), rule c(3))
qed

section \<open>The search on x-controls between 0 and 1\<close>

text \<open>
  The ends of the search interval stay on the grid \<open>k / 2^n\<close>, \<open>(k + 1) / 2^n\<close>, where
  the midpoint is computed without rounding; the curve is below \<open>t\<close> at the lower end and
  not below it at the upper end, up to the rounding error of \<^verbatim>\<open>calculate\<close>; and at
  \<open>n = 22\<close> the midpoint is within the tolerance, so the search returns through the
  tolerance test at the 23rd midpoint at the latest, before the interval can collapse.
\<close>

lemma unit_mult: "0 \<le> x \<Longrightarrow> x \<le> 1 \<Longrightarrow> 0 \<le> y \<Longrightarrow> y \<le> (1::real) \<Longrightarrow> 0 \<le> x * y \<and> x * y \<le> 1"
  by (simp add: mult_le_one)

lemma bezier_poly:
  "bezier a b m = 3 * a * m + (3 * b - 6 * a) * (m * m) + (3 * a - 3 * b + 1) * (m * m * m)"
  by (simp add: bezier_def algebra_simps)

lemma bezier_lipschitz:
  assumes "0 \<le> a" "a \<le> 1" "0 \<le> b" "b \<le> 1" "0 \<le> m" "m \<le> 1" "0 \<le> m'" "m' \<le> 1"
  shows "\<bar>bezier a b m' - bezier a b m\<bar> \<le> 27 * \<bar>m' - m\<bar>"
proof -
  define q1 where "q1 = m + m'"
  define q2 where "q2 = m * m + m * m' + m' * m'"
  have q1: "0 \<le> q1" "q1 \<le> 2" using assms by (simp_all add: q1_def)
  have "0 \<le> m * m \<and> m * m \<le> 1" "0 \<le> m * m' \<and> m * m' \<le> 1" "0 \<le> m' * m' \<and> m' * m' \<le> 1"
    using assms by (simp_all add: unit_mult)
  then have q2: "0 \<le> q2" "q2 \<le> 3" by (simp_all add: q2_def)
  have d: "bezier a b m' - bezier a b m
             = (m' - m) * (3 * a + (3 * b - 6 * a) * q1 + (3 * a - 3 * b + 1) * q2)"
    by (simp add: bezier_poly q1_def q2_def algebra_simps)
  have "\<bar>(3 * b - 6 * a) * q1\<bar> \<le> 6 * 2"
    unfolding abs_mult using assms q1 by (intro mult_mono) simp_all
  moreover have "\<bar>(3 * a - 3 * b + 1) * q2\<bar> \<le> 4 * 3"
    unfolding abs_mult using assms q2 by (intro mult_mono) simp_all
  moreover have "\<bar>3 * a\<bar> \<le> 3" using assms by simp
  ultimately have "\<bar>3 * a + (3 * b - 6 * a) * q1 + (3 * a - 3 * b + 1) * q2\<bar> \<le> 27"
    by linarith
  then have "\<bar>m' - m\<bar> * \<bar>3 * a + (3 * b - 6 * a) * q1 + (3 * a - 3 * b + 1) * q2\<bar> \<le> \<bar>m' - m\<bar> * 27"
    by (intro mult_left_mono) simp_all
  then show ?thesis
    unfolding d abs_mult by (simp add: mult.commute)
qed

lemma bezier_ends: "bezier a b 0 = 0" "bezier a b 1 = 1"
  by (simp_all add: bezier_def)

lemma dyadic_powi: "of_nat j / 2 ^ n = (of_int (int j) :: real) * 2 powi (- int n)"
  by (simp add: power_int_minus field_simps)

lemma rnd_dyadic:
  assumes "j < 2 ^ 53" "n \<le> 1074" "of_nat j / 2 ^ n \<le> (2::real)"
  shows "rnd (of_nat j / 2 ^ n) = Finite (of_nat j / 2 ^ n)"
proof -
  have "int j < int (2 ^ 53)" using assms(1) by (simp only: of_nat_less_iff)
  then have j: "\<bar>int j\<bar> < 2 ^ 53" by simp
  have k: "- 1074 \<le> - int n" using assms(2) by simp
  have "\<bar>of_nat j / 2 ^ n\<bar> \<le> (2::real)" using assms(3) by simp
  then have b: "\<bar>of_nat j / 2 ^ n\<bar> < (2::real) ^ 1024" by simp
  show ?thesis using j k dyadic_powi b by (rule rnd_exact)
qed

lemma dyadic_interval:
  assumes "k < 2 ^ n"
  shows "0 \<le> (of_nat k :: real) / 2 ^ n"
    and "(of_nat (Suc k) :: real) / 2 ^ n \<le> 1"
    and "(of_nat k :: real) / 2 ^ n < of_nat (Suc k) / 2 ^ n"
    and "0 \<le> (of_nat (Suc (2 * k)) :: real) / 2 ^ Suc n"
    and "(of_nat (Suc (2 * k)) :: real) / 2 ^ Suc n \<le> 1"
    and "(of_nat (Suc (2 * k)) :: real) / 2 ^ Suc n - of_nat k / 2 ^ n = 1 / 2 ^ Suc n"
    and "(of_nat (Suc k) :: real) / 2 ^ n - of_nat (Suc (2 * k)) / 2 ^ Suc n = 1 / 2 ^ Suc n"
    and "(of_nat k :: real) / 2 ^ n = of_nat (2 * k) / 2 ^ Suc n"
    and "(of_nat (Suc k) :: real) / 2 ^ n = of_nat (Suc (Suc (2 * k))) / 2 ^ Suc n"
proof -
  have "Suc k \<le> 2 ^ n" using assms by simp
  then have "(of_nat (Suc k) :: real) \<le> of_nat (2 ^ n)" by (simp only: of_nat_le_iff)
  then have k: "(of_nat (Suc k) :: real) \<le> 2 ^ n" by simp
  then show "(of_nat (Suc k) :: real) / 2 ^ n \<le> 1" by simp
  show "0 \<le> (of_nat k :: real) / 2 ^ n" by simp
  show "(of_nat k :: real) / 2 ^ n < of_nat (Suc k) / 2 ^ n" by (simp add: divide_strict_right_mono)
  show "0 \<le> (of_nat (Suc (2 * k)) :: real) / 2 ^ Suc n" by simp
  have "(of_nat (Suc (2 * k)) :: real) \<le> 2 * of_nat (Suc k)" by simp
  also have "\<dots> \<le> 2 ^ Suc n" using k by simp
  finally show "(of_nat (Suc (2 * k)) :: real) / 2 ^ Suc n \<le> 1" by simp
  show "(of_nat (Suc (2 * k)) :: real) / 2 ^ Suc n - of_nat k / 2 ^ n = 1 / 2 ^ Suc n"
    by (simp add: field_simps)
  show "(of_nat (Suc k) :: real) / 2 ^ n - of_nat (Suc (2 * k)) / 2 ^ Suc n = 1 / 2 ^ Suc n"
    by (simp add: field_simps)
  show "(of_nat k :: real) / 2 ^ n = of_nat (2 * k) / 2 ^ Suc n" by simp
  show "(of_nat (Suc k) :: real) / 2 ^ n = of_nat (Suc (Suc (2 * k))) / 2 ^ Suc n"
    by (simp add: field_simps)
qed

lemma mid_exact:
  assumes "n \<le> 51" "k < 2 ^ n"
  shows "js_div (js_add (Finite (of_nat k / 2 ^ n)) (Finite (of_nat (Suc k) / 2 ^ n))) (Finite 2)
           = Finite (of_nat (Suc (2 * k)) / 2 ^ Suc n)"
proof -
  have "Suc (2 * k) < 2 ^ Suc n" using assms(2) by simp
  also have "(2::nat) ^ Suc n \<le> 2 ^ 53"
    using assms(1) by (intro power_increasing) simp_all
  finally have b: "Suc (2 * k) < 2 ^ 53" .
  have n: "n \<le> 1074" "Suc n \<le> 1074" using assms(1) by simp_all
  have s: "of_nat k / 2 ^ n + of_nat (Suc k) / 2 ^ n = (of_nat (Suc (2 * k)) :: real) / 2 ^ n"
    by (simp add: field_simps)
  have "(of_nat (Suc (2 * k)) :: real) / 2 ^ Suc n \<le> 1"
    by (rule dyadic_interval(5) [OF assms(2)])
  then have le: "(of_nat (Suc (2 * k)) :: real) / 2 ^ n \<le> 2"
    "(of_nat (Suc (2 * k)) :: real) / 2 ^ Suc n \<le> 2"
    by (simp_all add: field_simps)
  have a: "js_add (Finite (of_nat k / 2 ^ n)) (Finite (of_nat (Suc k) / 2 ^ n))
             = Finite (of_nat (Suc (2 * k)) / 2 ^ n)"
    unfolding js_add.simps s using b n(1) le(1) by (rule rnd_dyadic)
  have d: "(of_nat (Suc (2 * k)) :: real) / 2 ^ n / 2 = of_nat (Suc (2 * k)) / 2 ^ Suc n"
    by simp
  have "js_div (Finite (of_nat (Suc (2 * k)) / 2 ^ n)) (Finite 2)
          = rnd (of_nat (Suc (2 * k)) / 2 ^ n / 2)"
    by simp
  also have "\<dots> = Finite (of_nat (Suc (2 * k)) / 2 ^ Suc n)"
    unfolding d using b n(2) le(2) by (rule rnd_dyadic)
  finally show ?thesis unfolding a .
qed

lemma loop_unfold:
  assumes "js_lt start end" and "m = js_div (js_add start end) (Finite 2)"
  shows "getValue_loop [a, c1, b, c3] t start mid end =
           (if js_lt (Math_abs (js_sub t (calculate a b m))) (Finite (fl 0.00001))
            then Some (calculate c1 c3 m)
            else if js_lt (calculate a b m) t then getValue_loop [a, c1, b, c3] t m m end
            else getValue_loop [a, c1, b, c3] t start m m)"
  by (subst getValue_loop.simps) (simp add: assms)

lemma tolerance_test:
  assumes "0 \<le> t" "t \<le> 1" "0 \<le> x" "x \<le> 7"
  shows "js_lt (Math_abs (js_sub (Finite t) (Finite x))) (Finite (fl 0.00001))
           \<longleftrightarrow> \<bar>fl (t - x)\<bar> < fl 0.00001"
proof -
  have "\<bar>fl (t - x)\<bar> \<le> of_nat 8 * 2 powi 0"
    by (rule fl_bounded) (use assms in simp_all)
  then have "\<bar>fl (t - x)\<bar> < 2 ^ 1024" by simp
  then show ?thesis by (simp add: rnd_finite)
qed

lemma bracket_hit:
  assumes c: "0 \<le> a" "a \<le> 1" "0 \<le> b" "b \<le> 1"
    and k: "k < 2 ^ 22"
    and lo: "bezier a b (of_nat k / 2 ^ 22) < t + 1 / 2 ^ 44"
    and hi: "t - 1 / 2 ^ 44 \<le> bezier a b (of_nat (Suc k) / 2 ^ 22)"
  shows "\<bar>fl (t - calculate_fl a b (of_nat (Suc (2 * k)) / 2 ^ 23))\<bar> < fl 0.00001"
proof -
  define s :: real where "s = of_nat k / 2 ^ 22"
  define e :: real where "e = of_nat (Suc k) / 2 ^ 22"
  define m :: real where "m = of_nat (Suc (2 * k)) / 2 ^ 23"
  have i: "0 \<le> s" "e \<le> 1" "s < e" "0 \<le> m" "m \<le> 1" "m - s = 1 / 2 ^ 23" "e - m = 1 / 2 ^ 23"
    using dyadic_interval(1-7) [OF k] by (simp_all add: s_def e_def m_def)
  have s1: "s \<le> 1" and e0: "0 \<le> e" using i by linarith+
  have "\<bar>bezier a b m - bezier a b s\<bar> \<le> 27 * \<bar>m - s\<bar>"
    using c i(1) s1 i(4,5) by (intro bezier_lipschitz)
  then have ls: "\<bar>bezier a b m - bezier a b s\<bar> \<le> 27 / 2 ^ 23"
    by (simp add: i(6))
  have "\<bar>bezier a b e - bezier a b m\<bar> \<le> 27 * \<bar>e - m\<bar>"
    using c i(4,5) e0 i(2) by (intro bezier_lipschitz)
  then have le: "\<bar>bezier a b e - bezier a b m\<bar> \<le> 27 / 2 ^ 23"
    by (simp add: i(7))
  have r: "\<bar>calculate_fl a b m - bezier a b m\<bar> \<le> 1 / 2 ^ 44"
    using c i(4,5) by (intro calculate_err)
  have lo': "bezier a b s < t + 1 / 2 ^ 44" using lo by (simp add: s_def)
  have hi': "t - 1 / 2 ^ 44 \<le> bezier a b e" using hi by (simp add: e_def)
  define X where "X = calculate_fl a b m"
  have "\<bar>t - X\<bar> \<le> 2 / 2 ^ 44 + 27 / 2 ^ 23"
    unfolding X_def using ls le r lo' hi' by linarith
  also have "\<dots> \<le> (1::real) / 2 ^ 18" by simp
  finally have d: "t - X \<le> 1 / 2 ^ 18" "- (1 / 2 ^ 18) \<le> t - X" by linarith+
  have u: "fl (t - X) \<le> 1 / 2 ^ 18"
    using d(1) by (rule fl_le' [where m = 1 and k = "- 18"]) (simp_all add: power_int_minus)
  have l: "- (1 / 2 ^ 18) \<le> fl (t - X)"
    using d(2) by (rule fl_ge' [where m = "- 1" and k = "- 18"]) (simp_all add: power_int_minus)
  have "\<bar>fl (t - X)\<bar> \<le> 1 / 2 ^ 18" using u l by linarith
  also have "\<dots> < (1::real) / 2 ^ 17" by simp
  also have "\<dots> \<le> fl 0.00001" by (rule tolerance_ge)
  finally show ?thesis by (simp add: X_def m_def)
qed

lemma calculate_unit:
  assumes "0 \<le> a" "a \<le> 1" "0 \<le> b" "b \<le> 1" "0 \<le> m" "m \<le> 1"
  shows "calculate (Finite a) (Finite b) (Finite m) = Finite (calculate_fl a b m)"
  using assms by (intro calculate_Finite) simp_all

lemma bracket_search:
  assumes c: "0 \<le> a" "a \<le> 1" "0 \<le> b" "b \<le> 1" and t: "0 \<le> t" "t \<le> 1"
  shows "n + d = 22 \<Longrightarrow> k < 2 ^ n
         \<Longrightarrow> bezier a b (of_nat k / 2 ^ n) < t + 1 / 2 ^ 44
         \<Longrightarrow> t - 1 / 2 ^ 44 \<le> bezier a b (of_nat (Suc k) / 2 ^ n)
         \<Longrightarrow> \<exists>m. getValue_loop [Finite a, c1, Finite b, c3] (Finite t)
                      (Finite (of_nat k / 2 ^ n)) mid (Finite (of_nat (Suc k) / 2 ^ n))
                    = Some (calculate c1 c3 (Finite m))
                \<and> js_lt (Math_abs (js_sub (Finite t)
                     (calculate (Finite a) (Finite b) (Finite m)))) (Finite (fl 0.00001))
                \<and> 0 \<le> m \<and> m \<le> 1"
proof (induction d arbitrary: n k mid)
  case 0
  have n: "n = 22" using "0.prems"(1) by simp
  define m :: real where "m = of_nat (Suc (2 * k)) / 2 ^ 23"
  have k: "k < 2 ^ 22" using "0.prems"(2) unfolding n .
  have i: "(of_nat k :: real) / 2 ^ 22 < of_nat (Suc k) / 2 ^ 22" "0 \<le> m" "m \<le> 1"
    using dyadic_interval(3,4,5) [OF k] by (simp_all add: m_def)
  have lt: "js_lt (Finite (of_nat k / 2 ^ 22)) (Finite (of_nat (Suc k) / 2 ^ 22))"
    using i(1) by simp
  have me: "Finite m
      = js_div (js_add (Finite (of_nat k / 2 ^ 22)) (Finite (of_nat (Suc k) / 2 ^ 22))) (Finite 2)"
    using mid_exact [of 22 k] k by (simp add: m_def)
  have cf: "calculate (Finite a) (Finite b) (Finite m) = Finite (calculate_fl a b m)"
    using c i(2,3) by (rule calculate_unit)
  have r: "0 \<le> calculate_fl a b m" "calculate_fl a b m \<le> 7"
    using calculate_err(2,3) [OF c i(2,3)] .
  have "\<bar>fl (t - calculate_fl a b m)\<bar> < fl 0.00001"
    unfolding m_def using c k "0.prems"(3,4) unfolding n by (rule bracket_hit)
  then have h: "js_lt (Math_abs (js_sub (Finite t) (calculate (Finite a) (Finite b) (Finite m))))
                  (Finite (fl 0.00001))"
    unfolding cf by (simp only: tolerance_test [OF t r])
  have "getValue_loop [Finite a, c1, Finite b, c3] (Finite t)
          (Finite (of_nat k / 2 ^ 22)) mid (Finite (of_nat (Suc k) / 2 ^ 22))
          = Some (calculate c1 c3 (Finite m))"
    unfolding loop_unfold [OF lt me] using h by simp
  then show ?case using h i(2,3) unfolding n by blast
next
  case (Suc d)
  have n: "n \<le> 51" and nd: "Suc n + d = 22" using Suc.prems(1) by simp_all
  define s :: real where "s = of_nat k / 2 ^ n"
  define e :: real where "e = of_nat (Suc k) / 2 ^ n"
  define m :: real where "m = of_nat (Suc (2 * k)) / 2 ^ Suc n"
  have k: "k < 2 ^ n" by (rule Suc.prems(2))
  have i: "s < e" "0 \<le> m" "m \<le> 1"
    unfolding s_def e_def m_def by (rule dyadic_interval(3,4,5) [OF k])+
  have lt: "js_lt (Finite s) (Finite e)" using i(1) by simp
  have se: "s = of_nat (2 * k) / 2 ^ Suc n" "e = of_nat (Suc (Suc (2 * k))) / 2 ^ Suc n"
    unfolding s_def e_def by (rule dyadic_interval(8,9) [OF k])+
  have me: "Finite m = js_div (js_add (Finite s) (Finite e)) (Finite 2)"
    unfolding s_def e_def m_def by (rule mid_exact [OF n k, symmetric])
  define X where "X = calculate_fl a b m"
  have cf: "calculate (Finite a) (Finite b) (Finite m) = Finite X"
    unfolding X_def using c i(2,3) by (rule calculate_unit)
  have r: "\<bar>X - bezier a b m\<bar> \<le> 1 / 2 ^ 44"
    unfolding X_def using c i(2,3) by (intro calculate_err)
  have lo: "bezier a b s < t + 1 / 2 ^ 44" using Suc.prems(3) by (simp only: s_def)
  have hi: "t - 1 / 2 ^ 44 \<le> bezier a b e" using Suc.prems(4) by (simp only: e_def)
  note u = loop_unfold [OF lt me, of "Finite a" c1 "Finite b" c3 "Finite t" mid]
  define hit where
    "hit = js_lt (Math_abs (js_sub (Finite t) (Finite X))) (Finite (fl 0.00001))"
  consider (hit) "hit" | (up) "\<not> hit" "X < t" | (down) "\<not> hit" "\<not> X < t"
    by blast
  then have "\<exists>m. getValue_loop [Finite a, c1, Finite b, c3] (Finite t) (Finite s) mid (Finite e)
                  = Some (calculate c1 c3 (Finite m))
                \<and> js_lt (Math_abs (js_sub (Finite t)
                     (calculate (Finite a) (Finite b) (Finite m)))) (Finite (fl 0.00001))
                \<and> 0 \<le> m \<and> m \<le> 1"
  proof cases
    case hit
    then have h: "js_lt (Math_abs (js_sub (Finite t) (calculate (Finite a) (Finite b) (Finite m))))
                    (Finite (fl 0.00001))"
      by (simp only: cf hit_def)
    then have "getValue_loop [Finite a, c1, Finite b, c3] (Finite t) (Finite s) mid (Finite e)
                 = Some (calculate c1 c3 (Finite m))"
      unfolding u by simp
    then show ?thesis using h i(2,3) by blast
  next
    case up
    have g: "getValue_loop [Finite a, c1, Finite b, c3] (Finite t) (Finite s) mid (Finite e)
               = getValue_loop [Finite a, c1, Finite b, c3] (Finite t) (Finite m) (Finite m) (Finite e)"
      unfolding u cf using up by (simp add: hit_def)
    have k': "Suc (2 * k) < 2 ^ Suc n" using k by simp
    have lo': "bezier a b (of_nat (Suc (2 * k)) / 2 ^ Suc n) < t + 1 / 2 ^ 44"
      using r up(2) unfolding m_def by linarith
    have hi': "t - 1 / 2 ^ 44 \<le> bezier a b (of_nat (Suc (Suc (2 * k))) / 2 ^ Suc n)"
      using hi unfolding se .
    from Suc.IH [OF nd k' lo' hi', of "Finite m"]
    show ?thesis unfolding g unfolding se(2) m_def .
  next
    case down
    have g: "getValue_loop [Finite a, c1, Finite b, c3] (Finite t) (Finite s) mid (Finite e)
               = getValue_loop [Finite a, c1, Finite b, c3] (Finite t) (Finite s) (Finite m) (Finite m)"
      unfolding u cf using down by (simp add: hit_def)
    have k': "2 * k < 2 ^ Suc n" using k by simp
    have lo': "bezier a b (of_nat (2 * k) / 2 ^ Suc n) < t + 1 / 2 ^ 44"
      using lo unfolding se .
    have hi': "t - 1 / 2 ^ 44 \<le> bezier a b (of_nat (Suc (2 * k)) / 2 ^ Suc n)"
      using r down(2) unfolding m_def by linarith
    from Suc.IH [OF nd k' lo' hi', of "Finite m"]
    show ?thesis unfolding g unfolding se(1) m_def .
  qed
  then show ?case unfolding s_def e_def .
qed

section \<open>Base64 round trip\<close>

lemma unbase64_char: "n < 64 \<Longrightarrow> unbase64 (base64_char n) = Some n"
  by (auto simp add: unbase64_def base64_char_def Let_def)

lemma base64_char_not_pad: "n < 64 \<Longrightarrow> base64_char n \<noteq> CHR ''=''"
proof
  assume "n < 64" and "base64_char n = CHR ''=''"
  then have "unbase64 (CHR ''='') = Some n" using unbase64_char by metis
  then show False by (simp add: unbase64_def)
qed

lemma byte_lt: "unat (a :: byte) < 256"
  using unsigned_less [of a] by simp

lemma sextet_bounds:
  fixes a b c :: nat
  assumes "a < 256" "b < 256" "c < 256"
  shows "a div 4 < 64" "(a mod 4) * 16 + b div 16 < 64" "(b mod 16) * 4 + c div 64 < 64"
    "c mod 64 < 64" "(b mod 16) * 4 < 64" "(a mod 4) * 16 < 64"
  using assms by auto

lemma sextet_join:
  fixes a b c :: nat
  assumes "a < 256" "b < 256" "c < 256"
  shows "(a div 4) * 4 + ((a mod 4) * 16 + b div 16) div 16 = a"
    "(((a mod 4) * 16 + b div 16) mod 16) * 16 + ((b mod 16) * 4 + c div 64) div 4 = b"
    "(((b mod 16) * 4 + c div 64) mod 4) * 64 + c mod 64 = c"
    "(((a mod 4) * 16 + b div 16) mod 16) * 16 + ((b mod 16) * 4) div 4 = b"
    "(a div 4) * 4 + ((a mod 4) * 16) div 16 = a"
  using assms by auto

lemma sextets_Cons: "n < 64 \<Longrightarrow> sextets (base64_char n # s) = n # sextets s"
  by (simp add: sextets_def base64_char_not_pad unbase64_char map_filter_simps)

lemma sextets_pad: "sextets (CHR ''='' # s) = []"
  by (simp add: sextets_def map_filter_simps)

lemma decode_encode: "decodeBase64 (encodeBase64 bs) = bs"
proof (induction bs rule: encodeBase64.induct)
  case (1 a b c rest)
  have "decode_sextets (sextets (encodeBase64 rest)) = rest"
    using 1 by (simp add: decodeBase64_def)
  then show ?case
    using byte_lt [of a] byte_lt [of b] byte_lt [of c]
    by (simp add: decodeBase64_def sextets_Cons sextet_bounds sextet_join)
next
  case (2 a b)
  show ?case
    using byte_lt [of a] byte_lt [of b]
    by (simp add: decodeBase64_def sextets_Cons sextets_pad sextet_bounds sextet_join)
next
  case (3 a)
  show ?case
    using byte_lt [of a]
    by (simp add: decodeBase64_def sextets_Cons sextets_pad sextet_bounds sextet_join)
next
  case 4
  show ?case by (simp add: decodeBase64_def sextets_def map_filter_simps)
qed

lemma takeWhile_strip: "takeWhile (\<lambda>c. c \<noteq> CHR ''='') (strip_padding s) = strip_padding s"
  by (simp add: strip_padding_def takeWhile_eq_all_conv)

lemma sextets_strip_Cons: "n < 64 \<Longrightarrow> sextets (strip_padding (base64_char n # s)) = n # sextets (strip_padding s)"
  by (simp add: strip_padding_def base64_char_not_pad sextets_Cons)

lemma decode_strip_encode: "decodeBase64 (strip_padding (encodeBase64 bs)) = bs"
proof (induction bs rule: encodeBase64.induct)
  case (1 a b c rest)
  have "decode_sextets (sextets (strip_padding (encodeBase64 rest))) = rest"
    using 1 by (simp add: decodeBase64_def)
  then show ?case
    using byte_lt [of a] byte_lt [of b] byte_lt [of c]
    by (simp add: decodeBase64_def sextets_strip_Cons sextet_bounds sextet_join)
next
  case (2 a b)
  have e: "sextets (strip_padding [CHR ''='']) = []"
    by (simp add: strip_padding_def sextets_def map_filter_simps)
  show ?case
    using byte_lt [of a] byte_lt [of b]
    by (simp add: decodeBase64_def sextets_strip_Cons e sextet_bounds sextet_join)
next
  case (3 a)
  have e: "sextets (strip_padding [CHR ''='', CHR ''='']) = []"
    by (simp add: strip_padding_def sextets_def map_filter_simps)
  show ?case
    using byte_lt [of a]
    by (simp add: decodeBase64_def sextets_strip_Cons e sextet_bounds sextet_join)
next
  case 4
  show ?case by (simp add: decodeBase64_def sextets_def strip_padding_def map_filter_simps)
qed

lemma sextets_unstrip: "sextets (unstrip_padding (strip_padding s)) = sextets (strip_padding s)"
proof -
  have a: "takeWhile (\<lambda>c. c \<noteq> CHR ''='') (replicate k (CHR ''='')) = []" for k
    by (cases k) simp_all
  have "takeWhile (\<lambda>c. c \<noteq> CHR ''='') (strip_padding s @ replicate k (CHR ''=''))
        = strip_padding s" for k
    by (subst takeWhile_append2) (simp_all add: a strip_padding_def)
  then show ?thesis
    by (simp add: sextets_def unstrip_padding_def takeWhile_strip)
qed

lemma decode_unstrip:
  "decodeBase64 (unstrip_padding (strip_padding s)) = decodeBase64 (strip_padding s)"
  by (simp add: decodeBase64_def sextets_unstrip)

section \<open>Facts about the token bytes\<close>

lemma be_bytes_length: "length (be_bytes w) = 4"
  by (simp add: be_bytes_def)

lemma sha256_length: "length (sha256 msg) = 32"
  by (simp add: sha256_def be_bytes_length split: prod.splits)

lemma unmask_mask: "unmask (r # map (\<lambda>item. item XOR r) bs) = bs"
  by (simp add: unmask_def o_def xor.assoc)

lemma timeNowBytes_length: "length (timeNowBytes t) = 4"
  by (simp add: timeNowBytes_def Let_def)

lemma bytesArr_length: "length (bytesArr m p k a t) = length (getKeyBytes k) + 4 + 16 + 1"
  by (simp add: bytesArr_def timeNowBytes_length sha256_length)

lemma decode_token:
  "decodeBase64 (generateTransactionId now r m p k a t) = generateTransactionId_out now r m p k a t"
  by (simp add: generateTransactionId_def decode_strip_encode)

lemma timeNowBytes_1: "timeNowBytes 1 = [1, 0, 0, 0]"
  by (simp add: timeNowBytes_def)

lemma timeNowBytes_2: "timeNowBytes 2 = [2, 0, 0, 0]"
  by (simp add: timeNowBytes_def)

text \<open>
  With the timestamp argument 0, two readings of the clock one second apart give two
  different tokens, whatever the other arguments and the mask byte are.
\<close>

lemma token_differs:
  "generateTransactionId 1682924401000 r m p k a (Some 0)
     \<noteq> generateTransactionId 1682924402000 r m p k a (Some 0)"
proof
  assume "generateTransactionId 1682924401000 r m p k a (Some 0)
     = generateTransactionId 1682924402000 r m p k a (Some 0)"
  then have "generateTransactionId_out 1682924401000 r m p k a (Some 0)
     = generateTransactionId_out 1682924402000 r m p k a (Some 0)"
    by (metis decode_token)
  then have "unmask (generateTransactionId_out 1682924401000 r m p k a (Some 0))
     = unmask (generateTransactionId_out 1682924402000 r m p k a (Some 0))"
    by simp
  then have "bytesArr m p k a 1 = bytesArr m p k a 2"
    by (simp add: generateTransactionId_out_def unmask_mask effectiveTimeNow_def defaultTimeNow_def)
  then show False
    by (simp add: bytesArr_def timeNowBytes_1 timeNowBytes_2)
qed

text \<open>
  With a timestamp other than 0, the token does not depend on the clock, and the unmasked
  bytes do not depend on the mask byte either.
\<close>

lemma determinism_nonzero:
  "t \<noteq> 0 \<Longrightarrow>
     generateTransactionId now1 r m p k a (Some t) = generateTransactionId now2 r m p k a (Some t)
     \<and> unmask (decodeBase64 (generateTransactionId now1 r1 m p k a (Some t)))
         = unmask (decodeBase64 (generateTransactionId now2 r2 m p k a (Some t)))"
proof -
  assume t: "t \<noteq> 0"
  have a: "generateTransactionId now1 r m p k a (Some t)
             = generateTransactionId now2 r m p k a (Some t)"
    using t
    by (simp add: generateTransactionId_def generateTransactionId_out_def effectiveTimeNow_def)
  have b: "unmask (generateTransactionId_out now1 r1 m p k a (Some t))
             = unmask (generateTransactionId_out now2 r2 m p k a (Some t))"
    using t by (simp add: generateTransactionId_out_def unmask_mask effectiveTimeNow_def)
  show ?thesis using a b by (simp only: decode_token)
qed

section \<open>Claims\<close>

text \<open>
  C1. For every method, path, verification key, animation key and timestamp, the bytes
  that \<^verbatim>\<open>generateTransactionId\<close> base64-encodes are the mask byte followed by the
  plaintext (the decoded key, the four time bytes, the first 16 bytes of the SHA-256 of the
  signature text, and the byte 3), each plaintext byte XORed with the mask. The token
  decodes back to exactly these bytes, with or without its padding restored, and
  unmasking them with the first byte gives the plaintext, of length
  \<open>len(keyBytes) + 4 + 16 + 1\<close>.
\<close>

theorem C1_token_layout:
  "decodeBase64 (generateTransactionId now r m p k a t)
     = r # map (\<lambda>b. b XOR r)
        (getKeyBytes k @ timeNowBytes (effectiveTimeNow now t)
          @ take 16 (sha256 (TextEncoder_encode (signature_data m p (effectiveTimeNow now t) a)))
          @ [3])
   \<and> decodeBase64 (unstrip_padding (generateTransactionId now r m p k a t))
       = decodeBase64 (generateTransactionId now r m p k a t)
   \<and> unmask (decodeBase64 (generateTransactionId now r m p k a t))
       = getKeyBytes k @ timeNowBytes (effectiveTimeNow now t)
          @ take 16 (sha256 (TextEncoder_encode (signature_data m p (effectiveTimeNow now t) a)))
          @ [3]
   \<and> length (unmask (decodeBase64 (generateTransactionId now r m p k a t)))
       = length (getKeyBytes k) + 4 + 16 + 1"
proof -
  have out: "generateTransactionId_out now r m p k a t
     = r # map (\<lambda>b. b XOR r)
        (getKeyBytes k @ timeNowBytes (effectiveTimeNow now t)
          @ take 16 (sha256 (TextEncoder_encode (signature_data m p (effectiveTimeNow now t) a)))
          @ [3])"
    by (simp add: generateTransactionId_out_def bytesArr_def ADDITIONAL_RANDOM_NUMBER_def)
  have pad: "decodeBase64 (unstrip_padding (generateTransactionId now r m p k a t))
       = decodeBase64 (generateTransactionId now r m p k a t)"
    by (simp add: generateTransactionId_def decode_unstrip)
  have plain: "unmask (generateTransactionId_out now r m p k a t)
       = bytesArr m p k a (effectiveTimeNow now t)"
    by (simp add: generateTransactionId_out_def unmask_mask)
  have plain': "bytesArr m p k a (effectiveTimeNow now t)
       = getKeyBytes k @ timeNowBytes (effectiveTimeNow now t)
          @ take 16 (sha256 (TextEncoder_encode (signature_data m p (effectiveTimeNow now t) a)))
          @ [3]"
    by (simp add: bytesArr_def ADDITIONAL_RANDOM_NUMBER_def)
  have len: "length (unmask (generateTransactionId_out now r m p k a t))
       = length (getKeyBytes k) + 4 + 16 + 1"
    by (simp only: plain bytesArr_length)
  show ?thesis
    using out pad plain plain' len by (simp only: decode_token)
qed

text \<open>
  C2 as stated: in \<^verbatim>\<open>animate\<close>, the curve control at position \<open>i\<close> of
  \<^verbatim>\<open>frames.slice(7)\<close> is \<open>solve(value, lower, 1, false)\<close> with \<open>lower = -1\<close> for
  even \<open>i\<close> and \<open>0\<close> for odd \<open>i\<close>. The code has it the other way round: on the
  row of the specification's own scenario, position 0 gets the lower bound 0 and the
  control is the double 0.02, not the double -0.96.
\<close>

theorem C2_counterexample:
  "animate_curves [Finite 10, Finite 20, Finite 30, Finite 40, Finite 50, Finite 60, Finite 128,
       Finite 5, Finite 5, Finite 5, Finite 5] ! 0
     \<noteq> solve (drop 7 [Finite 10, Finite 20, Finite 30, Finite 40, Finite 50, Finite 60,
                  Finite 128, Finite 5, Finite 5, Finite 5, Finite 5] ! 0)
         (if even (0::nat) then Finite (- 1) else Finite 0) (Finite 1) False"
  by (simp add: animate_curves_def isOdd_def enumerate_eq_zip solve_5_0 solve_5_m1)

text \<open>
  C2, amended: the curve control at position \<open>i\<close> of \<^verbatim>\<open>frames.slice(7)\<close> is
  \<open>solve(value, lower, 1, false)\<close> where \<open>lower\<close> is \<open>-1\<close> when \<open>i\<close> is odd and
  \<open>0\<close> when \<open>i\<close> is even.
\<close>

theorem C2_curve_lower_bound:
  "i < length (drop 7 frames) \<Longrightarrow>
     animate_curves frames ! i
       = solve (drop 7 frames ! i) (if odd i then Finite (- 1) else Finite 0) (Finite 1) False"
  by (simp add: animate_curves_def nth_enumerate_eq isOdd_def odd_iff_mod_2_eq_one)

theorem C2_curve_lower_bound_witness:
  "(1::nat) < length (drop 7 [Finite 10, Finite 20, Finite 30, Finite 40, Finite 50, Finite 60,
                  Finite 128, Finite 5, Finite 5, Finite 5, Finite 5])
   \<and> animate_curves [Finite 10, Finite 20, Finite 30, Finite 40, Finite 50, Finite 60,
         Finite 128, Finite 5, Finite 5, Finite 5, Finite 5] ! 1
       = Finite (- (8646911284551352 / 2 ^ 53))"
  using C2_curve_lower_bound [of 1 "[Finite 10, Finite 20, Finite 30, Finite 40, Finite 50,
    Finite 60, Finite 128, Finite 5, Finite 5, Finite 5, Finite 5]"]
  by (simp add: solve_5_m1)

text \<open>
  C3 as stated: for \<open>t \<le> 0\<close> the result is \<open>gradient * t\<close> with \<open>gradient = c1/c0\<close>
  if \<open>c0 > 0\<close>, else \<open>c3/c2\<close> if \<open>c0 = 0\<close> and \<open>c2 > 0\<close>, else 0. The code tests
  \<open>c1 = 0\<close> in the second case, not \<open>c0 = 0\<close>: with the controls \<open>[0, 1, 1, 1]\<close>
  at \<open>t = -1\<close> it returns 0, where the stated rule gives -1.
\<close>

theorem C3_counterexample:
  "getValue [Finite 0, Finite 1, Finite 1, Finite 1] (Finite (- 1))
     \<noteq> Some (js_mul (if js_gt (Finite 0) (Finite 0) then js_div (Finite 1) (Finite 0)
                      else if js_eq (Finite 0) (Finite 0) \<and> js_gt (Finite 1) (Finite 0)
                      then js_div (Finite 1) (Finite 1) else Finite 0) (Finite (- 1)))"
  by (simp add: getValue_def startGradient_def js_gt_def js_eq_def rnd_0 rnd_1)
    (simp add: rnd_def fl_neg_1)

text \<open>
  C3, amended: for every control set \<open>[c0, c1, c2, c3]\<close> and every \<open>t \<le> 0\<close>,
  \<^verbatim>\<open>getValue(t)\<close> returns \<open>gradient * t\<close>, where \<open>gradient = c1/c0\<close> if
  \<open>c0 > 0\<close>; else \<open>c3/c2\<close> if \<open>c1 = 0\<close> and \<open>c2 > 0\<close>; else 0 (the quotient and
  the product in double arithmetic).
\<close>

theorem C3_start_gradient:
  "js_le t (Finite 0) \<Longrightarrow>
     getValue [c0, c1, c2, c3] t
       = Some (js_mul (if js_gt c0 (Finite 0) then js_div c1 c0
                       else if js_eq c1 (Finite 0) \<and> js_gt c2 (Finite 0) then js_div c3 c2
                       else Finite 0) t)"
  by (simp add: getValue_def startGradient_def)

theorem C3_start_gradient_witness:
  "js_le (Finite (- 2)) (Finite 0)
   \<and> getValue [Finite (- 1), Finite 0, Finite (1 / 2), Finite 1] (Finite (- 2))
       = Some (Finite (- 4))"
proof -
  have "js_mul (js_div (Finite 1) (Finite (1 / 2))) (Finite (- 2)) = Finite (- 4)"
    by (simp add: rnd_eval)
  then show ?thesis
    using C3_start_gradient [of "Finite (- 2)" "Finite (- 1)" "Finite 0" "Finite (1 / 2)" "Finite 1"]
    by (simp add: js_gt_def js_eq_def)
qed

text \<open>
  C4 as stated: when no element has an identifier with the animation-frame prefix, the
  selection of the frame element fails with a NoFrames error. The code returns the table
  \<open>[[]]\<close> instead, as on this document without any frame.
\<close>

theorem C4_counterexample:
  "getFrames (Element [] []) = [] \<and> get2dArray [] (Element [] []) None = Inr [[]]"
  by (simp add: get2dArray_def getFrames_def getAttribute_def)

text \<open>
  C4, amended: when no element has an identifier with the animation-frame prefix,
  \<^verbatim>\<open>get2dArray\<close> raises nothing and returns the table \<open>[[]]\<close> of one empty row;
  \<^verbatim>\<open>getAnimationKey\<close> then fails with "Invalid frame data" whenever
  \<open>keyBytes[rowIndex] % 16\<close> is not 0.
\<close>

theorem C4_no_frames:
  "getFrames response = [] \<Longrightarrow>
     get2dArray keyBytes response None = Inr [[]] \<and>
     (rowIndex < length keyBytes \<and> unat (keyBytes ! rowIndex) mod 16 \<noteq> 0 \<longrightarrow>
        getAnimationKey_frameRow keyBytes response rowIndex = Inl Invalid_frame_data)"
  by (simp add: get2dArray_def getAnimationKey_frameRow_def)

theorem C4_no_frames_witness:
  "getFrames (Element [(''id'', ''root'')] [Element [] []]) = []
   \<and> get2dArray [7, 7] (Element [(''id'', ''root'')] [Element [] []]) None = Inr [[]]
   \<and> getAnimationKey_frameRow [7, 7] (Element [(''id'', ''root'')] [Element [] []]) 1
       = Inl Invalid_frame_data"
proof -
  have h: "getFrames (Element [(''id'', ''root'')] [Element [] []]) = []"
    by (simp add: getFrames_def getAttribute_def)
  show ?thesis
    using h C4_no_frames [OF h, of "[7, 7]" 1] by simp
qed

text \<open>
  C5 as stated: with \<open>floor\<close> set, \<^verbatim>\<open>solve\<close> truncates
  \<open>v * (max - min) / 255 + min\<close> toward zero. The code takes \<^verbatim>\<open>Math.floor\<close>: for
  \<open>v = 0\<close>, \<open>min = -1/2\<close>, \<open>max = 1\<close> the quantity is \<open>-1/2\<close>, the code returns
  \<open>-1\<close>, and truncation toward zero gives 0.
\<close>

theorem C5_counterexample:
  "solve (Finite 0) (Finite (- 1 / 2)) (Finite 1) True
     \<noteq> truncate_toward_zero
         (js_add (js_div (js_mul (Finite 0) (js_sub (Finite 1) (Finite (- 1 / 2)))) (Finite 255))
            (Finite (- 1 / 2)))"
proof -
  have "js_add (js_div (js_mul (Finite 0) (js_sub (Finite 1) (Finite (- 1 / 2)))) (Finite 255))
          (Finite (- 1 / 2)) = Finite (- 1 / 2)"
    by (simp add: rnd_eval)
  then show ?thesis
    by (simp add: solve_True ceiling_def)
qed

text \<open>
  C5, amended: for every \<open>v\<close>, \<open>min\<close> and \<open>max\<close>, with \<open>q\<close> the value of
  \<open>v * (max - min) / 255 + min\<close> in double arithmetic: with \<open>floor\<close> set \<^verbatim>\<open>solve\<close>
  returns \<^verbatim>\<open>Math.floor(q)\<close>, for a finite \<open>q\<close> the floor of \<open>q\<close> (rounding toward
  minus infinity), which is the truncation toward zero whenever \<open>q \<ge> 0\<close>; without
  \<open>floor\<close> it returns \<^verbatim>\<open>Math.round(q * 100) / 100\<close>, where \<^verbatim>\<open>Math.round\<close> of a finite
  \<open>p\<close> is \<open>floor (p + 1/2)\<close>, a tie going up.
\<close>

theorem C5_solve:
  "solve v mn mx True = Math_floor (js_add (js_div (js_mul v (js_sub mx mn)) (Finite 255)) mn)
   \<and> (\<forall>q. js_add (js_div (js_mul v (js_sub mx mn)) (Finite 255)) mn = Finite q \<longrightarrow>
         solve v mn mx True = Finite (of_int \<lfloor>q\<rfloor>)
         \<and> (0 \<le> q \<longrightarrow> solve v mn mx True = truncate_toward_zero (Finite q)))
   \<and> solve v mn mx False
       = js_div (Math_round (js_mul (js_add (js_div (js_mul v (js_sub mx mn)) (Finite 255)) mn)
           (Finite 100))) (Finite 100)
   \<and> (\<forall>p. js_mul (js_add (js_div (js_mul v (js_sub mx mn)) (Finite 255)) mn) (Finite 100)
            = Finite p \<longrightarrow>
         solve v mn mx False = js_div (Finite (of_int \<lfloor>p + 1 / 2\<rfloor>)) (Finite 100))"
  by (simp add: solve_True solve_False)

theorem C5_solve_witness:
  "solve (Finite 128) (Finite 60) (Finite 360) True = Finite 210
   \<and> solve (Finite 128) (Finite 60) (Finite 360) True
       = truncate_toward_zero (js_add (js_div (js_mul (Finite 128) (js_sub (Finite 360) (Finite 60)))
           (Finite 255)) (Finite 60))
   \<and> solve (Finite 5) (Finite (- 1)) (Finite 1) False = Finite (- (8646911284551352 / 2 ^ 53))"
proof -
  define Q :: real where "Q = 7409414828118739 / 2 ^ 45"
  define P :: real where "P = - (6760918558246149 / 2 ^ 46)"
  have q: "js_add (js_div (js_mul (Finite 128) (js_sub (Finite 360) (Finite 60))) (Finite 255))
             (Finite 60) = Finite Q"
    unfolding Q_def by (simp add: rnd_eval)
  have p: "js_mul (js_add (js_div (js_mul (Finite 5) (js_sub (Finite 1) (Finite (- 1))))
             (Finite 255)) (Finite (- 1))) (Finite 100) = Finite P"
    unfolding P_def by (simp add: rnd_eval)
  have Q: "0 \<le> Q" "of_int \<lfloor>Q\<rfloor> = (210::real)"
    by (simp_all add: Q_def)
  have P: "of_int \<lfloor>P + 1 / 2\<rfloor> = (- 96 :: real)"
    by (simp add: P_def)
  from C5_solve [of "Finite 128" "Finite 60" "Finite 360"] q Q(1)
  have a: "solve (Finite 128) (Finite 60) (Finite 360) True = Finite (of_int \<lfloor>Q\<rfloor>)"
    "solve (Finite 128) (Finite 60) (Finite 360) True = truncate_toward_zero (Finite Q)"
    by blast+
  from C5_solve [of "Finite 5" "Finite (- 1)" "Finite 1"] p
  have "solve (Finite 5) (Finite (- 1)) (Finite 1) False
          = js_div (Finite (of_int \<lfloor>P + 1 / 2\<rfloor>)) (Finite 100)"
    by blast
  then have b: "solve (Finite 5) (Finite (- 1)) (Finite 1) False
          = Finite (- (8646911284551352 / 2 ^ 53))"
    unfolding P by (simp add: rnd_eval)
  show ?thesis
    unfolding q using a b Q(2) by simp
qed

text \<open>
  C6 states that two runs with the same method, path, key, animation key, timestamp and
  mask byte give the same token. At the timestamp 0 the code does not do this:
  \<^verbatim>\<open>timeNow || ...\<close> takes the 0 for a missing argument and reads the clock, so two runs
  one second apart give different tokens, although the parameter is documented as
  \<^verbatim>\<open>Optional timestamp (defaults to current time)\<close>.
\<close>

theorem C6_zero_timestamp:
  "generateTransactionId 1682924401000 7 ''GET'' ''/x'' ''AAAA'' ''00'' (Some 0)
     \<noteq> generateTransactionId 1682924402000 7 ''GET'' ''/x'' ''AAAA'' ''00'' (Some 0)"
  by (rule token_differs)

text \<open>
  C7 as stated: for every control set \<^verbatim>\<open>getValue(0)\<close> returns 0 and \<^verbatim>\<open>getValue(1)\<close>
  returns 1. With the controls \<open>[2^(-1000), 2^100, 1/2, 1/2]\<close> the start gradient
  \<open>c1/c0 = 2^1100\<close> overflows to \<^verbatim>\<open>Infinity\<close>, and \<^verbatim>\<open>getValue(0)\<close>, the product
  \<^verbatim>\<open>Infinity * 0\<close>, is \<^verbatim>\<open>NaN\<close>.
\<close>

theorem C7_counterexample:
  "getValue [Finite (1 / 2 ^ 1000), Finite (2 ^ 100), Finite (1 / 2), Finite (1 / 2)] (Finite 0)
     = Some NaN"
proof -
  have "fl (2 ^ 1100) = 2 ^ 1100"
    by (rule fl_exact' [where m = 1 and k = 1100]) simp_all
  then have "js_div (Finite (2 ^ 100)) (Finite (1 / 2 ^ 1000)) = PosInfinity"
    by (simp add: rnd_def)
  then show ?thesis
    by (simp add: getValue_def startGradient_def js_gt_def)
qed

text \<open>
  C7, amended: for every control set whose start gradient (\<open>c1/c0\<close> if \<open>c0 > 0\<close>; else
  \<open>c3/c2\<close> if \<open>c1 = 0\<close> and \<open>c2 > 0\<close>; else 0) is a finite number, \<^verbatim>\<open>getValue(0)\<close>
  returns 0, and for every control set whose end gradient (\<open>(c3 - 1)/(c2 - 1)\<close> if
  \<open>c2 < 1\<close>; else \<open>(c1 - 1)/(c0 - 1)\<close> if \<open>c2 = 1\<close> and \<open>c0 < 1\<close>; else 0) is a finite
  number, \<^verbatim>\<open>getValue(1)\<close> returns 1. When the gradient is not finite, the result is
  \<^verbatim>\<open>NaN\<close>.
\<close>

theorem C7_endpoints:
  "(is_finite (startGradient [c0, c1, c2, c3])
      \<longrightarrow> getValue [c0, c1, c2, c3] (Finite 0) = Some (Finite 0))
   \<and> (\<not> is_finite (startGradient [c0, c1, c2, c3])
      \<longrightarrow> getValue [c0, c1, c2, c3] (Finite 0) = Some NaN)
   \<and> (is_finite (endGradient [c0, c1, c2, c3])
      \<longrightarrow> getValue [c0, c1, c2, c3] (Finite 1) = Some (Finite 1))
   \<and> (\<not> is_finite (endGradient [c0, c1, c2, c3])
      \<longrightarrow> getValue [c0, c1, c2, c3] (Finite 1) = Some NaN)"
proof -
  have a: "js_mul g (Finite 0) = (if is_finite g then Finite 0 else NaN)" for g
    by (cases g) (simp_all add: rnd_0)
  show ?thesis
    by (simp add: getValue_def js_ge_def rnd_0 rnd_1 a)
qed

theorem C7_endpoints_witness:
  "is_finite (startGradient [Finite (1 / 4), Finite (1 / 2), Finite (3 / 4), Finite (1 / 2)])
   \<and> getValue [Finite (1 / 4), Finite (1 / 2), Finite (3 / 4), Finite (1 / 2)] (Finite 0)
       = Some (Finite 0)
   \<and> is_finite (endGradient [Finite (1 / 4), Finite (1 / 2), Finite (3 / 4), Finite (1 / 2)])
   \<and> getValue [Finite (1 / 4), Finite (1 / 2), Finite (3 / 4), Finite (1 / 2)] (Finite 1)
       = Some (Finite 1)"
proof -
  have s: "startGradient [Finite (1 / 4), Finite (1 / 2), Finite (3 / 4), Finite (1 / 2)] = Finite 2"
    by (simp add: startGradient_def js_gt_def rnd_eval)
  have e: "endGradient [Finite (1 / 4), Finite (1 / 2), Finite (3 / 4), Finite (1 / 2)] = Finite 2"
    by (simp add: endGradient_def rnd_eval)
  show ?thesis
    using C7_endpoints [of "Finite (1 / 4)" "Finite (1 / 2)" "Finite (3 / 4)" "Finite (1 / 2)"]
    by (simp add: s e)
qed

text \<open>
  C8 as stated: for every control set and every \<open>t\<close> strictly between 0 and 1 the
  search of \<^verbatim>\<open>getValue\<close> returns. For the controls \<open>[0, 0, -2^60, 0]\<close> and
  \<open>t = 1/2\<close> it does not: the lower end climbs to \<open>1 - 2^(-53)\<close>, the double next to
  1, from where the midpoint rounds to 1, the upper end is set to the value it already
  has, and the loop repeats this step for ever.
\<close>

theorem C8_counterexample:
  "getValue [Finite 0, Finite 0, Finite (- (2 ^ 60)), Finite 0] (Finite (1 / 2)) = None"
proof (cases "getValue [Finite 0, Finite 0, Finite (- (2 ^ 60)), Finite 0] (Finite (1 / 2))")
  case None
  then show ?thesis .
next
  case (Some y)
  then have "getValue_loop [Finite 0, Finite 0, Finite steep, Finite 0] (Finite (1 / 2))
               (Finite 0) (Finite 0) (Finite 1) = Some y"
    by (simp add: getValue_def steep_def js_ge_def)
  from getValue_loop_stuck [OF this]
  have "\<not> (\<exists>j. j \<le> 53 \<and> 0 = stuck_start j)"
    by simp
  moreover have "\<exists>j. j \<le> 53 \<and> 0 = stuck_start j"
    by (rule exI [of _ 0]) (simp add: stuck_start_0)
  ultimately show ?thesis by contradiction
qed

text \<open>
  C8, amended: for every control set \<open>[c0, c1, c2, c3]\<close> whose x-components \<open>c0\<close> and
  \<open>c2\<close> lie between 0 and 1, and every \<open>t\<close> strictly between 0 and 1, the search of
  \<^verbatim>\<open>getValue\<close> returns: it finds a parameter \<open>m\<close> between 0 and 1 whose x-component
  \<^verbatim>\<open>calculate(c0, c2, m)\<close> passes the test \<^verbatim>\<open>Math.abs(time - xEst) < 0.00001\<close>, and
  returns the y-component \<^verbatim>\<open>calculate(c1, c3, m)\<close> there.
\<close>

theorem C8_search_returns:
  assumes "0 \<le> c0" "c0 \<le> 1" "0 \<le> c2" "c2 \<le> 1" "0 < t" "t < 1"
  shows "\<exists>m. getValue [Finite c0, c1, Finite c2, c3] (Finite t) = Some (calculate c1 c3 (Finite m))
           \<and> js_lt (Math_abs (js_sub (Finite t) (calculate (Finite c0) (Finite c2) (Finite m))))
                (Finite (fl 0.00001))
           \<and> 0 \<le> m \<and> m \<le> 1"
proof -
  have t: "0 \<le> t" "t \<le> 1" using assms(5,6) by simp_all
  have lo: "bezier c0 c2 (of_nat 0 / 2 ^ 0) < t + 1 / 2 ^ 44"
    using assms(5) by (simp add: bezier_ends)
  have hi: "t - 1 / 2 ^ 44 \<le> bezier c0 c2 (of_nat (Suc 0) / 2 ^ 0)"
    using assms(6) by (simp add: bezier_ends)
  have "\<exists>m. getValue_loop [Finite c0, c1, Finite c2, c3] (Finite t)
               (Finite (of_nat 0 / 2 ^ 0)) (Finite 0) (Finite (of_nat (Suc 0) / 2 ^ 0))
               = Some (calculate c1 c3 (Finite m))
           \<and> js_lt (Math_abs (js_sub (Finite t) (calculate (Finite c0) (Finite c2) (Finite m))))
                (Finite (fl 0.00001))
           \<and> 0 \<le> m \<and> m \<le> 1"
    using assms(1-4) t _ _ lo hi by (rule bracket_search [where d = 22]) simp_all
  then show ?thesis using assms(5,6) by (simp add: getValue_def js_ge_def)
qed

theorem C8_search_returns_witness:
  "(0::real) \<le> 1 / 4 \<and> (1 / 4 :: real) \<le> 1 \<and> (0::real) \<le> 3 / 4 \<and> (3 / 4 :: real) \<le> 1
   \<and> (0::real) < 1 / 2 \<and> (1 / 2 :: real) < 1
   \<and> (\<exists>m. getValue [Finite (1 / 4), Finite 0, Finite (3 / 4), Finite 1] (Finite (1 / 2))
            = Some (calculate (Finite 0) (Finite 1) (Finite m))
          \<and> js_lt (Math_abs (js_sub (Finite (1 / 2))
               (calculate (Finite (1 / 4)) (Finite (3 / 4)) (Finite m)))) (Finite (fl 0.00001))
          \<and> 0 \<le> m \<and> m \<le> 1)"
proof -
  have h: "(0::real) \<le> 1 / 4" "(1 / 4 :: real) \<le> 1" "(0::real) \<le> 3 / 4" "(3 / 4 :: real) \<le> 1"
    "(0::real) < 1 / 2" "(1 / 2 :: real) < 1"
    by simp_all
  show ?thesis
    using h C8_search_returns [OF h, of "Finite 0" "Finite 1"] by blast
qed




text \<open>
  C10. A timestamp argument of 0 is discarded: the token is the one computed when the
  timestamp is left out, from the reading of the clock. So with the argument 0 the token
  is not a function of the explicit arguments and the mask byte: two readings of the clock
  one second apart give different tokens.
\<close>

theorem C10_zero_timestamp:
  "generateTransactionId now r m p k a (Some 0) = generateTransactionId now r m p k a None
   \<and> effectiveTimeNow now (Some 0) = (now - 1682924400 * 1000) div 1000
   \<and> generateTransactionId 1682924401000 r m p k a (Some 0)
       \<noteq> generateTransactionId 1682924402000 r m p k a (Some 0)"
  using token_differs [of r m p k a]
  by (simp add: generateTransactionId_def generateTransactionId_out_def effectiveTimeNow_def
      defaultTimeNow_def)

end
